theory Spec2Isabelle
  imports Main "HOL-Library.AList" "HOL-Library.List_Lexorder"
begin

section \<open>Strings and the text normalizer\<close>

text \<open>
  A Python \<^verbatim>\<open>str\<close> is a sequence of Unicode code points, and \<^verbatim>\<open>len\<close>,
  indexing, slicing and \<^verbatim>\<open><\<close> all work on code points. A string is therefore a
  list of code points, each a natural number; the lexicographic order of
  \<^verbatim>\<open>HOL-Library.List_Lexorder\<close> is Python's string order.
\<close>

type_synonym ustring = "nat list"

text \<open>
  \<^verbatim>\<open>word.replace(x, y)\<close> where \<^verbatim>\<open>x\<close> and \<^verbatim>\<open>y\<close> are one code point each:
  every occurrence of \<^verbatim>\<open>x\<close> becomes \<^verbatim>\<open>y\<close>.
\<close>

definition replace :: "nat \<Rightarrow> nat \<Rightarrow> ustring \<Rightarrow> ustring" where
  "replace x y word = map (\<lambda>c. if c = x then y else c) word"

text \<open>
  The nine pairs of \<^verbatim>\<open>deaccent\<close>, in the source's order, as code points:
  U+00E1 to a, U+00E9 to e, U+00ED to i, U+00F3 to o, U+00FA to u, U+00FC to u,
  U+00EE to i, U+00F6 to o, U+00C1 to a.
\<close>

definition accent_pairs :: "(nat \<times> nat) list" where
  "accent_pairs =
     [(225, 97), (233, 101), (237, 105), (243, 111), (250, 117),
      (252, 117), (238, 105), (246, 111), (193, 97)]"

definition deaccent :: "ustring \<Rightarrow> ustring" where
  "deaccent word = foldl (\<lambda>w (x, y). replace x y w) word accent_pairs"

definition invert :: "ustring \<Rightarrow> ustring" where
  "invert word = rev word"

text \<open>The accented letters the normalizer lists.\<close>

definition accented :: "nat set" where
  "accented = fst ` set accent_pairs"

section \<open>Errors and generators\<close>

text \<open>
  The exceptions the modelled code can raise. A Python generator is modelled by the
  list of the values it yields together with the exception that ends it, if one does:
  \<open>(ys, None)\<close> yields \<open>ys\<close> and returns, \<open>(ys, Some e)\<close> yields \<open>ys\<close> and then
  raises \<open>e\<close>.
\<close>

datatype error = AssertionError | IndexError | AttributeError | NameError

section \<open>Word\<close>

text \<open>
  Words are objects that refer to each other through \<^verbatim>\<open>inverted\<close>, and the
  reference is assigned after both objects exist, so words live in a heap: a list of
  objects, the address of an object being its index. \<^verbatim>\<open>inverted\<close> holds the address
  of the partner, or \<open>None\<close>.
\<close>

record Word =
  original :: ustring
  deaccented :: ustring
  inverted :: "nat option"

type_synonym heap = "Word list"

text \<open>\<^verbatim>\<open>Word\<close> defines \<^verbatim>\<open>__len__\<close> and no \<^verbatim>\<open>__bool__\<close>: a word is true iff its
  normalized form is not empty.\<close>

definition Word_bool :: "Word \<Rightarrow> bool" where
  "Word_bool w = (length (deaccented w) \<noteq> 0)"

text \<open>Truth value of an expression that is a word or \<^verbatim>\<open>None\<close>.\<close>

definition truthy :: "heap \<Rightarrow> nat option \<Rightarrow> bool" where
  "truthy h x = (case x of None \<Rightarrow> False | Some a \<Rightarrow> Word_bool (h ! a))"

definition is_symmetrical :: "Word \<Rightarrow> bool" where
  "is_symmetrical w = (deaccented w = invert (deaccented w))"

text \<open>
  \<^verbatim>\<open>Inverted.__set__(obj, value)\<close>. The nested assignment \<^verbatim>\<open>value.inverted = obj\<close>
  enters \<^verbatim>\<open>__set__\<close> again with \<^verbatim>\<open>(value, obj)\<close>; there \<^verbatim>\<open>obj.inverted\<close> is
  \<^verbatim>\<open>value\<close>, just stored and not \<^verbatim>\<open>None\<close>, so the nested call only stores.
\<close>

definition Inverted_set :: "heap \<Rightarrow> nat \<Rightarrow> nat option \<Rightarrow> heap" where
  "Inverted_set h obj val =
     (let h1 = h[obj := (h ! obj)\<lparr>inverted := val\<rparr>]
      in case val of
           None \<Rightarrow> h1
         | Some v \<Rightarrow>
             if inverted (h1 ! v) = None
             then h1[v := (h1 ! v)\<lparr>inverted := Some obj\<rparr>]
             else h1)"

text \<open>\<^verbatim>\<open>Word.__init__\<close>: allocates the object and returns its address and the new heap.\<close>

definition Word_init :: "heap \<Rightarrow> ustring \<Rightarrow> nat \<times> heap" where
  "Word_init h orig =
     (let w = \<lparr>original = orig, deaccented = deaccent orig, inverted = None\<rparr>;
          a = length h;
          h1 = h @ [w]
      in (a, if is_symmetrical w then Inverted_set h1 a (Some a) else h1))"

section \<open>WordsList\<close>

text \<open>
  \<^verbatim>\<open>words\<close> is the dictionary of the \<^verbatim>\<open>DictStorage\<close>, from normalized form to the
  address of a word, as an association list in insertion order (a Python dict keeps
  the position of a key that is assigned again; so does \<open>AList.update\<close>).
  \<^verbatim>\<open>l_and_p\<close> is the dictionary from (letter, position) to a set of normalized
  forms, an association list as well; a set is a list without duplicates, in one of
  the orders Python may iterate it.
  \<^verbatim>\<open>raw_words\<close> is the attribute \<^verbatim>\<open>_words\<close>. Lengths and positions are natural numbers.
\<close>

record WordsList =
  wl_length :: "nat option"
  raw_words :: "ustring list"
  heap :: heap
  words :: "(ustring \<times> nat) list"
  l_and_p :: "((nat \<times> nat) \<times> ustring list) list"

text \<open>\<^verbatim>\<open>not length or len(w) == length\<close>, and \<^verbatim>\<open>length and len(item) != length\<close>:
  \<^verbatim>\<open>None\<close> and \<open>0\<close> are false.\<close>

definition length_ok :: "nat option \<Rightarrow> ustring \<Rightarrow> bool" where
  "length_ok len w = (case len of None \<Rightarrow> True | Some l \<Rightarrow> l = 0 \<or> length w = l)"

definition register_word_letter_and_position ::
  "((nat \<times> nat) \<times> ustring list) list \<Rightarrow> ustring \<Rightarrow> ((nat \<times> nat) \<times> ustring list) list" where
  "register_word_letter_and_position lp d =
     foldl (\<lambda>m (pos, letter).
              AList.update (letter, pos)
                (List.insert d (case map_of m (letter, pos) of None \<Rightarrow> [] | Some s \<Rightarrow> s)) m)
           lp (enumerate 0 d)"

text \<open>The body of the loop of \<^verbatim>\<open>WordsList.setup\<close>, for one string, and the loop.\<close>

definition setup_word :: "WordsList \<Rightarrow> ustring \<Rightarrow> WordsList" where
  "setup_word st word_str =
     (let (word, h1) = Word_init (heap st) word_str;
          d = deaccented (h1 ! word);
          ws = AList.update d word (words st);
          lp = register_word_letter_and_position (l_and_p st) d;
          h2 = (case map_of ws (invert d) of
                  None \<Rightarrow> h1
                | Some i \<Rightarrow> if Word_bool (h1 ! i) then Inverted_set h1 word (Some i) else h1)
      in st\<lparr>heap := h2, words := ws, l_and_p := lp\<rparr>)"

definition WordsList_setup :: "WordsList \<Rightarrow> WordsList" where
  "WordsList_setup st = foldl setup_word st (raw_words st)"

definition WordsList_init :: "ustring list \<Rightarrow> nat option \<Rightarrow> WordsList" where
  "WordsList_init ws len =
     WordsList_setup \<lparr>wl_length = len, raw_words = filter (length_ok len) (sort ws),
            heap = [], words = [], l_and_p = []\<rparr>"

definition iter_for_length :: "WordsList \<Rightarrow> nat \<Rightarrow> nat list" where
  "iter_for_length st len =
     filter (\<lambda>a. \<not> (length (deaccented (heap st ! a)) \<noteq> len \<or> inverted (heap st ! a) = None))
            (map snd (words st))"

text \<open>
  The loop of \<^verbatim>\<open>word_for_letters_in_position\<close> over the items of the set.
  \<^verbatim>\<open>self.words.get(item)\<close> is \<^verbatim>\<open>None\<close> for a missing key, and \<^verbatim>\<open>None.deaccented\<close>
  raises AttributeError. For \<open>position \<ge> 0\<close> the slice
  \<^verbatim>\<open>s[position:position+len(letters)]\<close> is \<open>take (length letters) (drop position s)\<close>.
\<close>

fun matching_items ::
  "WordsList \<Rightarrow> ustring \<Rightarrow> nat \<Rightarrow> nat option \<Rightarrow> ustring list \<Rightarrow> nat list \<times> error option" where
  "matching_items st letters position len [] = ([], None)"
| "matching_items st letters position len (item # items) =
     (if \<not> length_ok len item then matching_items st letters position len items
      else case map_of (words st) item of
             None \<Rightarrow> ([], Some AttributeError)
           | Some candidate \<Rightarrow>
               if take (length letters) (drop position (deaccented (heap st ! candidate)))
                    \<noteq> letters
               then matching_items st letters position len items
               else (case matching_items st letters position len items of
                       (ys, e) \<Rightarrow> (candidate # ys, e)))"

text \<open>\<^verbatim>\<open>letters[0]\<close> raises IndexError on the empty string, before anything is yielded.\<close>

definition word_for_letters_in_position ::
  "WordsList \<Rightarrow> ustring \<Rightarrow> nat \<Rightarrow> nat option \<Rightarrow> nat list \<times> error option" where
  "word_for_letters_in_position st letters position len =
     (case letters of
        [] \<Rightarrow> ([], Some IndexError)
      | l0 # _ \<Rightarrow>
          matching_items st letters position len
            (case map_of (l_and_p st) (l0, position) of None \<Rightarrow> [] | Some s \<Rightarrow> s))"

section \<open>Sator\<close>

text \<open>
  A grid is an object with fields \<^verbatim>\<open>length\<close> (here \<open>slen\<close>) and \<^verbatim>\<open>content\<close>, a
  list of word addresses or \<^verbatim>\<open>None\<close>. \<^verbatim>\<open>Sator\<close> defines \<^verbatim>\<open>__hash__\<close> and no
  \<^verbatim>\<open>__eq__\<close>, so two grids compare equal only when they are the same object; \<open>oid\<close>
  is the identity of the object, given by the allocation counter that every
  constructor call takes and the caller increments.
\<close>

record Sator =
  oid :: nat
  slen :: nat
  content :: "nat option list"

text \<open>\<^verbatim>\<open>Sator.__init__\<close>: the assertion passes for \<^verbatim>\<open>None\<close> and for the empty list,
  which are then replaced by \<^verbatim>\<open>length\<close> empty slots.\<close>

definition Sator_init :: "nat \<Rightarrow> nat \<Rightarrow> nat option list option \<Rightarrow> error + Sator" where
  "Sator_init ident len cont =
     (case cont of
        None \<Rightarrow> Inr \<lparr>oid = ident, slen = len, content = replicate len None\<rparr>
      | Some c \<Rightarrow>
          if c = [] then Inr \<lparr>oid = ident, slen = len, content = replicate len None\<rparr>
          else if length c = len then Inr \<lparr>oid = ident, slen = len, content = c\<rparr>
          else Inl AssertionError)"

text \<open>\<^verbatim>\<open>xs[i] = v\<close> on a Python list: a negative index counts from the end, an index
  out of range raises IndexError.\<close>

definition list_setitem :: "'a list \<Rightarrow> int \<Rightarrow> 'a \<Rightarrow> error + 'a list" where
  "list_setitem xs i v =
     (let n = int (length xs); j = (if i < 0 then i + n else i)
      in if 0 \<le> j \<and> j < n then Inr (xs[nat j := v]) else Inl IndexError)"

text \<open>\<^verbatim>\<open>xs[i:j]\<close> on a Python list: negative bounds count from the end, and bounds
  are clamped to the list.\<close>

definition slice_bound :: "nat \<Rightarrow> int \<Rightarrow> nat" where
  "slice_bound n i = (if i < 0 then nat (max 0 (i + int n)) else min (nat i) n)"

definition list_slice :: "'a list \<Rightarrow> int \<Rightarrow> int \<Rightarrow> 'a list" where
  "list_slice xs i j =
     (let a = slice_bound (length xs) i; b = slice_bound (length xs) j
      in take (b - a) (drop a xs))"

text \<open>
  \<^verbatim>\<open>Sator.__setitem__(pos, word)\<close>, where \<^verbatim>\<open>word\<close> may be \<^verbatim>\<open>None\<close> (the caller
  passes \<^verbatim>\<open>running_word.inverted\<close>): \<^verbatim>\<open>None.inverted\<close> raises AttributeError, and
  the assertion tests the truth value of \<^verbatim>\<open>word.inverted\<close>.
\<close>

definition Sator_setitem :: "heap \<Rightarrow> Sator \<Rightarrow> nat \<Rightarrow> nat option \<Rightarrow> error + Sator" where
  "Sator_setitem h g pos word =
     (case word of
        None \<Rightarrow> Inl AttributeError
      | Some w \<Rightarrow>
          if \<not> truthy h (inverted (h ! w)) then Inl AssertionError
          else case list_setitem (content g) (int pos) (Some w) of
                 Inl e \<Rightarrow> Inl e
               | Inr c1 \<Rightarrow>
                   if 2 * pos + 1 \<noteq> slen g
                   then (case list_setitem c1 (int (slen g) - int pos - 1) (inverted (h ! w)) of
                           Inl e \<Rightarrow> Inl e
                         | Inr c2 \<Rightarrow> Inr (g\<lparr>content := c2\<rparr>))
                   else Inr (g\<lparr>content := c1\<rparr>))"

text \<open>\<^verbatim>\<open>copy_with_word_in_pos\<close>; \<open>ident\<close> is the identity of the copy that
  \<^verbatim>\<open>__copy__\<close> constructs.\<close>

definition copy_with_word_in_pos ::
  "heap \<Rightarrow> Sator \<Rightarrow> nat option \<Rightarrow> nat \<Rightarrow> nat \<Rightarrow> error + Sator" where
  "copy_with_word_in_pos h g word pos ident =
     (case Sator_init ident (slen g) (Some (content g)) of
        Inl e \<Rightarrow> Inl e
      | Inr new_sator \<Rightarrow> Sator_setitem h new_sator pos word)"

text \<open>
  The tuple that \<^verbatim>\<open>Sator.__hash__\<close> hashes: the true entries of the grid, sorted by
  \<^verbatim>\<open>Word.__lt__\<close>, which compares the original strings. A word hashes as its original
  string, so the tuple is given as the list of original strings.
\<close>

definition Sator_hash :: "heap \<Rightarrow> Sator \<Rightarrow> ustring list" where
  "Sator_hash h g =
     map (\<lambda>a. original (h ! a))
       (sort_key (\<lambda>a. original (h ! a))
          (concat (map (\<lambda>w. case w of None \<Rightarrow> [] | Some a \<Rightarrow> if Word_bool (h ! a) then [a] else [])
                       (content g))))"

section \<open>Satorter\<close>

text \<open>
  \<^verbatim>\<open>Satorter.__init__\<close> asserts that the length is not \<open>0\<close>; \<open>s_length\<close> is that
  length, \<open>windex\<close> the attribute \<^verbatim>\<open>words\<close>. The set \<^verbatim>\<open>results\<close> is part of the
  state of the generator below.
\<close>

record Satorter =
  windex :: WordsList
  near_miss :: int
  s_length :: nat

definition Satorter_init :: "WordsList \<Rightarrow> nat option \<Rightarrow> int \<Rightarrow> error + Satorter" where
  "Satorter_init w len nm =
     (let l = (case wl_length w of
                 None \<Rightarrow> len
               | Some k \<Rightarrow> if k = 0 then len else Some k)
      in case l of
           None \<Rightarrow> Inl AssertionError
         | Some k \<Rightarrow>
             if k = 0 then Inl AssertionError
             else Inr \<lparr>windex = w, near_miss = nm, s_length = k\<rparr>)"

text \<open>\<^verbatim>\<open>(self.length + 1) // 2 - 1\<close>, for a length that is not \<open>0\<close>.\<close>

definition middle_pos :: "nat \<Rightarrow> nat" where
  "middle_pos len = (len + 1) div 2 - 1"

text \<open>
  \<^verbatim>\<open>"".join(w.deaccented[k] for w in rows)\<close> with \<open>k = pos - 1 \<ge> 0\<close>: an empty
  slot raises AttributeError, a word shorter than \<open>k + 1\<close> raises IndexError.
\<close>

fun required_letters :: "heap \<Rightarrow> nat \<Rightarrow> nat option list \<Rightarrow> error + ustring" where
  "required_letters h k [] = Inr []"
| "required_letters h k (w # ws) =
     (case w of
        None \<Rightarrow> Inl AttributeError
      | Some a \<Rightarrow>
          if k < length (deaccented (h ! a))
          then (case required_letters h k ws of
                  Inl e \<Rightarrow> Inl e
                | Inr r \<Rightarrow> Inr (deaccented (h ! a) ! k # r))
          else Inl IndexError)"

text \<open>
  \<^verbatim>\<open>iter_sator_for_central(running_word, pos, sator)\<close> with \<^verbatim>\<open>pos\<close> and \<^verbatim>\<open>sator\<close>
  given, as in the recursive call; a grid object is always true, so
  \<^verbatim>\<open>sator or Sator(self.length)\<close> is \<^verbatim>\<open>sator\<close>. The result is the list of grids
  yielded, the exception that ends the generator, if any, and the allocation counter.
  \<open>explore_candidates\<close> is the loop over the candidates; it also returns
  \<^verbatim>\<open>no_words\<close>. The candidates come from a generator: its exception, if any, is
  raised after the candidates it yielded have been explored.
\<close>

fun iter_sator_for_central ::
    "Satorter \<Rightarrow> nat \<Rightarrow> nat \<Rightarrow> Sator \<Rightarrow> nat \<Rightarrow> Sator list \<times> error option \<times> nat"
  and explore_candidates ::
    "Satorter \<Rightarrow> nat \<Rightarrow> Sator \<Rightarrow> nat list \<Rightarrow> bool \<Rightarrow> nat
       \<Rightarrow> Sator list \<times> error option \<times> bool \<times> nat" where
  "iter_sator_for_central S running_word 0 sator nxt =
     (case copy_with_word_in_pos (heap (windex S)) sator
             (inverted (heap (windex S) ! running_word)) 0 nxt of
        Inl e \<Rightarrow> ([], Some e, Suc nxt)
      | Inr new_sator \<Rightarrow> ([new_sator], None, Suc nxt))"
| "iter_sator_for_central S running_word (Suc p) sator nxt =
     (case copy_with_word_in_pos (heap (windex S)) sator
             (inverted (heap (windex S) ! running_word)) (Suc p) nxt of
        Inl e \<Rightarrow> ([], Some e, Suc nxt)
      | Inr new_sator \<Rightarrow>
          (case required_letters (heap (windex S)) p
                  (list_slice (content new_sator) (int (Suc p))
                     (int (s_length S) - int (Suc p))) of
             Inl e \<Rightarrow> ([], Some e, Suc nxt)
           | Inr required \<Rightarrow>
               (case word_for_letters_in_position (windex S) required (Suc p)
                       (Some (s_length S)) of
                  (cands, cfault) \<Rightarrow>
                    (case explore_candidates S p new_sator cands True (Suc nxt) of
                       (ys, Some e, no_words, n2) \<Rightarrow> (ys, Some e, n2)
                     | (ys, None, no_words, n2) \<Rightarrow>
                         (case cfault of
                            Some e \<Rightarrow> (ys, Some e, n2)
                          | None \<Rightarrow>
                              if no_words \<and> near_miss S \<ge> int (Suc p)
                              then (ys @ [new_sator], None, n2)
                              else (ys, None, n2))))))"
| "explore_candidates S p new_sator [] no_words nxt = ([], None, no_words, nxt)"
| "explore_candidates S p new_sator (c # cs) no_words nxt =
     (if \<not> truthy (heap (windex S)) (inverted (heap (windex S) ! c))
      then explore_candidates S p new_sator cs no_words nxt
      else case iter_sator_for_central S c p new_sator nxt of
             (ys, Some e, n1) \<Rightarrow> (ys, Some e, False, n1)
           | (ys, None, n1) \<Rightarrow>
               (case explore_candidates S p new_sator cs False n1 of
                  (zs, f, nw, n2) \<Rightarrow> (ys @ zs, f, nw, n2)))"

text \<open>The call \<^verbatim>\<open>self.iter_sator_for_central(word)\<close> of the generator: \<^verbatim>\<open>sator\<close>
  defaults to a new empty grid and \<^verbatim>\<open>pos\<close> to \<^verbatim>\<open>middle_pos\<close>.\<close>

definition iter_sator_for_seed ::
  "Satorter \<Rightarrow> nat \<Rightarrow> nat \<Rightarrow> Sator list \<times> error option \<times> nat" where
  "iter_sator_for_seed S word nxt =
     (case Sator_init nxt (s_length S) None of
        Inl e \<Rightarrow> ([], Some e, Suc nxt)
      | Inr sator \<Rightarrow>
          iter_sator_for_central S word (middle_pos (s_length S)) sator (Suc nxt))"

text \<open>
  The state of a run of \<^verbatim>\<open>generator\<close>: the grids yielded so far, the exception that
  left the generator, the tracebacks printed by the handler, the set \<^verbatim>\<open>results\<close>
  and the allocation counter.
\<close>

record run =
  yielded :: "Sator list"
  raised :: "error option"
  printed :: "error list"
  results :: "Sator list"
  next_id :: nat

text \<open>
  \<^verbatim>\<open>result in self.results\<close>: a member of a Python set is an element with the same
  hash that is the same object or compares equal; without \<^verbatim>\<open>__eq__\<close>, equal means
  the same object.
\<close>

definition in_results :: "heap \<Rightarrow> Sator list \<Rightarrow> Sator \<Rightarrow> bool" where
  "in_results h rs r = (\<exists>x \<in> set rs. Sator_hash h x = Sator_hash h r \<and> oid x = oid r)"

definition take_result :: "heap \<Rightarrow> run \<Rightarrow> Sator \<Rightarrow> run" where
  "take_result h st r =
     (if in_results h (results st) r then st
      else st\<lparr>results := r # results st, yielded := yielded st @ [r]\<rparr>)"

text \<open>
  The loop of \<^verbatim>\<open>generator\<close> over the seeds. The handler prints the traceback and
  then the name \<^verbatim>\<open>sator\<close>, which is no local name of \<^verbatim>\<open>generator\<close>: Python looks
  it up in the module, where only the loop of the script part binds it, to the grids
  it receives. \<open>bound ys\<close> tells whether the module-level name is bound when \<open>ys\<close>
  have been yielded; unbound, the handler raises NameError, which leaves the
  generator.
\<close>

fun generator_loop :: "Satorter \<Rightarrow> (Sator list \<Rightarrow> bool) \<Rightarrow> nat list \<Rightarrow> run \<Rightarrow> run" where
  "generator_loop S bound [] st = st"
| "generator_loop S bound (word # seeds) st =
     (if s_length S mod 2 \<noteq> 0 \<and> \<not> is_symmetrical (heap (windex S) ! word)
      then generator_loop S bound seeds st
      else case iter_sator_for_seed S word (next_id st) of
             (rs, fault, n1) \<Rightarrow>
               (let st1 = foldl (take_result (heap (windex S))) (st\<lparr>next_id := n1\<rparr>) rs
                in case fault of
                     None \<Rightarrow> generator_loop S bound seeds st1
                   | Some e \<Rightarrow>
                       (let st2 = st1\<lparr>printed := printed st1 @ [e]\<rparr>
                        in if bound (yielded st2) then generator_loop S bound seeds st2
                           else st2\<lparr>raised := Some NameError\<rparr>)))"

definition generator :: "Satorter \<Rightarrow> (Sator list \<Rightarrow> bool) \<Rightarrow> Sator list \<Rightarrow> nat \<Rightarrow> run" where
  "generator S bound res nxt =
     generator_loop S bound (iter_for_length (windex S) (s_length S))
       \<lparr>yielded = [], raised = None, printed = [], results = res, next_id = nxt\<rparr>"

section \<open>Notions used in the statements\<close>

text \<open>What \<^const>\<open>deaccent\<close> does to a single code point.\<close>

definition deaccent_char :: "nat \<Rightarrow> nat" where
  "deaccent_char c =
     (if c = 225 \<or> c = 193 then 97
      else if c = 233 then 101
      else if c = 237 \<or> c = 238 then 105
      else if c = 243 \<or> c = 246 then 111
      else if c = 250 \<or> c = 252 then 117
      else c)"

text \<open>\<^verbatim>\<open>Word.__eq__\<close> for another word: the normalized forms are equal.\<close>

definition Word_eq :: "Word \<Rightarrow> Word \<Rightarrow> bool" where
  "Word_eq w other = (deaccented w = deaccented other)"

text \<open>
  The reverse partners in a heap are well formed: a partner is an object of the heap,
  its normalized form is the reversal, and it has a partner itself.
\<close>

definition partners_ok :: "heap \<Rightarrow> bool" where
  "partners_ok h =
     (\<forall>a < length h. \<forall>p. inverted (h ! a) = Some p \<longrightarrow>
        p < length h \<and> deaccented (h ! p) = rev (deaccented (h ! a)) \<and> inverted (h ! p) \<noteq> None)"

text \<open>
  The index is well formed: partners are, the dictionary has one entry per key, each
  key is the normalized form of its word, and every normalized form in the positional
  index is a key of the dictionary.
\<close>

definition index_ok :: "WordsList \<Rightarrow> bool" where
  "index_ok st =
     (partners_ok (heap st)
      \<and> distinct (map fst (words st))
      \<and> (\<forall>k a. map_of (words st) k = Some a \<longrightarrow>
             a < length (heap st) \<and> deaccented (heap st ! a) = k)
      \<and> (\<forall>key items i. map_of (l_and_p st) key = Some items \<longrightarrow> i \<in> set items \<longrightarrow>
             map_of (words st) i \<noteq> None))"

text \<open>
  The normalized forms of the rows of a grid, top to bottom (the empty string for an
  empty slot), and the string read down a column of a list of rows.
\<close>

definition Sator_rows :: "heap \<Rightarrow> Sator \<Rightarrow> ustring list" where
  "Sator_rows h g = map (\<lambda>w. case w of None \<Rightarrow> [] | Some a \<Rightarrow> deaccented (h ! a)) (content g)"

definition column :: "ustring list \<Rightarrow> nat \<Rightarrow> ustring" where
  "column rows pos = map (\<lambda>r. r ! pos) rows"

text \<open>
  The slots \<open>lo \<le> i < hi\<close> of a grid of \<open>L\<close> slots hold words of the heap whose
  normalized form has length \<open>L\<close>.
\<close>

definition rows_ok :: "heap \<Rightarrow> nat \<Rightarrow> Sator \<Rightarrow> nat \<Rightarrow> nat \<Rightarrow> bool" where
  "rows_ok h L g lo hi =
     (slen g = L \<and> length (content g) = L
      \<and> (\<forall>i. lo \<le> i \<and> i < hi \<longrightarrow>
            (\<exists>a. content g ! i = Some a \<and> a < length h \<and> length (deaccented (h ! a)) = L)))"

section \<open>Properties of the normalizer\<close>

lemma deaccent_map: "deaccent s = map deaccent_char s"
  by (simp add: deaccent_def accent_pairs_def replace_def deaccent_char_def)

lemma deaccent_char_idem: "deaccent_char (deaccent_char c) = deaccent_char c"
  by (simp add: deaccent_char_def)

lemma deaccent_char_plain: "c \<notin> accented \<Longrightarrow> deaccent_char c = c"
  by (auto simp: deaccent_char_def accented_def accent_pairs_def)

lemma length_deaccent: "length (deaccent s) = length s"
  by (simp add: deaccent_map)

lemma deaccent_rev: "deaccent (rev s) = rev (deaccent s)"
  by (simp add: deaccent_map rev_map)

text \<open>
  C8. The normalizer is idempotent, maps the capital A with acute (U+00C1) to
  \<open>a\<close> (code point 97), leaves \<open>a\<close> unchanged, and leaves unchanged every string
  that contains none of the nine accented letters.
\<close>

theorem deaccent_idempotent_and_plain:
  "deaccent (deaccent s) = deaccent s
   \<and> deaccent [193] = [97]
   \<and> deaccent [97] = [97]
   \<and> (set t \<inter> accented = {} \<longrightarrow> deaccent t = t)"
proof -
  have idem: "deaccent (deaccent s) = deaccent s"
    by (simp add: deaccent_map deaccent_char_idem)
  have plain: "set t \<inter> accented = {} \<longrightarrow> deaccent t = t"
  proof
    assume "set t \<inter> accented = {}"
    then have "\<forall>c \<in> set t. deaccent_char c = c"
      by (auto intro: deaccent_char_plain)
    then show "deaccent t = t"
      by (simp add: deaccent_map map_idI)
  qed
  have "deaccent [193] = [97]" "deaccent [97] = [97]"
    by (simp_all add: deaccent_map deaccent_char_def)
  with idem plain show ?thesis by blast
qed

theorem deaccent_idempotent_and_plain_witness:
  "set [115, 97, 116, 111, 114] \<inter> accented = {}
   \<and> deaccent [115, 97, 116, 111, 114] = [115, 97, 116, 111, 114]
   \<and> deaccent (deaccent [225, 114, 98, 111, 108]) = deaccent [225, 114, 98, 111, 108]"
proof -
  have h: "set [115, 97, 116, 111, 114] \<inter> accented = {}"
    by (simp add: accented_def accent_pairs_def)
  from deaccent_idempotent_and_plain
         [of "[225, 114, 98, 111, 108]" "[115, 97, 116, 111, 114]"] h
  show ?thesis by blast
qed

section \<open>The index built by WordsList\<close>

lemma length_Inverted_set: "length (Inverted_set h obj v) = length h"
  by (simp add: Inverted_set_def Let_def split: option.splits)

lemma deaccented_update_inverted:
  "deaccented ((h[i := (h ! i)\<lparr>inverted := v\<rparr>]) ! a) = deaccented (h ! a)"
  by (cases "i < length h") (simp_all add: nth_list_update list_update_beyond)

lemma deaccented_Inverted_set: "deaccented (Inverted_set h obj v ! a) = deaccented (h ! a)"
  by (simp add: Inverted_set_def Let_def deaccented_update_inverted split: option.splits)

lemma original_update_inverted:
  "original ((h[i := (h ! i)\<lparr>inverted := v\<rparr>]) ! a) = original (h ! a)"
  by (cases "i < length h") (simp_all add: nth_list_update list_update_beyond)

lemma original_Inverted_set: "original (Inverted_set h obj v ! a) = original (h ! a)"
  by (simp add: Inverted_set_def Let_def original_update_inverted split: option.splits)

lemma inverted_Inverted_set:
  assumes "obj < length h" "v < length h"
  shows "inverted (Inverted_set h obj (Some v) ! a) =
           (if a = obj then Some v
            else if a = v \<and> inverted (h ! v) = None then Some obj
            else inverted (h ! a))"
  using assms by (auto simp: Inverted_set_def Let_def nth_list_update)

lemma partners_ok_Inverted_set:
  assumes ok: "partners_ok h" and o: "obj < length h" and v: "v < length h"
    and d: "deaccented (h ! v) = rev (deaccented (h ! obj))"
  shows "partners_ok (Inverted_set h obj (Some v))"
  unfolding partners_ok_def
proof (intro allI impI)
  fix a p
  assume a: "a < length (Inverted_set h obj (Some v))"
    and p: "inverted (Inverted_set h obj (Some v) ! a) = Some p"
  from a have a': "a < length h" by (simp add: length_Inverted_set)
  have d': "deaccented (h ! obj) = rev (deaccented (h ! v))" using d by simp
  from p have cases: "(a = obj \<and> p = v) \<or> (a = v \<and> p = obj) \<or> (a \<noteq> obj \<and> inverted (h ! a) = Some p)"
    by (auto simp: inverted_Inverted_set [OF o v] split: if_splits)
  have nn: "\<And>q. q < length h \<Longrightarrow> (q = obj \<or> q = v \<or> inverted (h ! q) \<noteq> None) \<Longrightarrow>
                 inverted (Inverted_set h obj (Some v) ! q) \<noteq> None"
    by (auto simp: inverted_Inverted_set [OF o v])
  from cases show "p < length (Inverted_set h obj (Some v)) \<and>
       deaccented (Inverted_set h obj (Some v) ! p) = rev (deaccented (Inverted_set h obj (Some v) ! a)) \<and>
       inverted (Inverted_set h obj (Some v) ! p) \<noteq> None"
  proof (elim disjE conjE)
    assume "a = obj" "p = v"
    then show ?thesis using o v d nn by (simp add: length_Inverted_set deaccented_Inverted_set)
  next
    assume "a = v" "p = obj"
    then show ?thesis using o v d' nn by (simp add: length_Inverted_set deaccented_Inverted_set)
  next
    assume "a \<noteq> obj" "inverted (h ! a) = Some p"
    with ok a' have "p < length h" "deaccented (h ! p) = rev (deaccented (h ! a))" "inverted (h ! p) \<noteq> None"
      by (auto simp: partners_ok_def)
    then show ?thesis using nn by (simp add: length_Inverted_set deaccented_Inverted_set)
  qed
qed

lemma Word_init_props:
  assumes "Word_init h s = (a, h1)"
  shows "a = length h" "length h1 = Suc (length h)" "deaccented (h1 ! a) = deaccent s"
    "original (h1 ! a) = s"
    "\<And>b. b < length h \<Longrightarrow> deaccented (h1 ! b) = deaccented (h ! b)"
    "\<And>b. b < length h \<Longrightarrow> original (h1 ! b) = original (h ! b)"
    "\<And>b. b < length h \<Longrightarrow> inverted (h1 ! b) = inverted (h ! b)"
  using assms
  by (auto simp: Word_init_def Let_def length_Inverted_set deaccented_Inverted_set
        original_Inverted_set inverted_Inverted_set nth_append split: if_splits)

lemma partners_ok_Word_init:
  assumes ok: "partners_ok h" and w: "Word_init h s = (a, h1)"
  shows "partners_ok h1"
proof -
  let ?w = "\<lparr>original = s, deaccented = deaccent s, inverted = None\<rparr>"
  have base: "partners_ok (h @ [?w])"
    using ok unfolding partners_ok_def
    by (auto simp: nth_append less_Suc_eq)
  show ?thesis
  proof (cases "is_symmetrical ?w")
    case True
    then have "deaccented ((h @ [?w]) ! length h) = rev (deaccented ((h @ [?w]) ! length h))"
      by (simp add: is_symmetrical_def invert_def)
    then have "partners_ok (Inverted_set (h @ [?w]) (length h) (Some (length h)))"
      by (intro partners_ok_Inverted_set base) simp_all
    with True w show ?thesis by (auto simp: Word_init_def Let_def)
  next
    case False
    with w base show ?thesis by (auto simp: Word_init_def Let_def)
  qed
qed


lemma register_items_step:
  "map_of (foldl (\<lambda>m (pos, letter).
            AList.update (letter, pos)
              (List.insert d (case map_of m (letter, pos) of None \<Rightarrow> [] | Some s \<Rightarrow> s)) m)
         lp ps) key = Some items \<Longrightarrow>
   i \<in> set items \<Longrightarrow> i = d \<or> (\<exists>old. map_of lp key = Some old \<and> i \<in> set old)"
proof (induction ps arbitrary: lp)
  case Nil
  then show ?case by simp
next
  case (Cons p ps)
  obtain pos letter where p: "p = (pos, letter)" by (cases p)
  let ?lp = "AList.update (letter, pos)
               (List.insert d (case map_of lp (letter, pos) of None \<Rightarrow> [] | Some s \<Rightarrow> s)) lp"
  from Cons.prems p have "map_of (foldl (\<lambda>m (pos, letter).
            AList.update (letter, pos)
              (List.insert d (case map_of m (letter, pos) of None \<Rightarrow> [] | Some s \<Rightarrow> s)) m)
         ?lp ps) key = Some items" by simp
  from Cons.IH [OF this Cons.prems(2)]
  have "i = d \<or> (\<exists>old. map_of ?lp key = Some old \<and> i \<in> set old)" .
  then show ?case
    by (auto simp: update_conv' split: if_splits option.splits)
qed

lemma register_items:
  "map_of (register_word_letter_and_position lp d) key = Some items \<Longrightarrow> i \<in> set items \<Longrightarrow>
   i = d \<or> (\<exists>old. map_of lp key = Some old \<and> i \<in> set old)"
  unfolding register_word_letter_and_position_def by (rule register_items_step)

lemma setup_word_fields:
  assumes "Word_init (heap st) s = (a, h1)"
  shows "words (setup_word st s) = AList.update (deaccent s) a (words st)"
    and "l_and_p (setup_word st s) = register_word_letter_and_position (l_and_p st) (deaccent s)"
    and "raw_words (setup_word st s) = raw_words st"
    and "wl_length (setup_word st s) = wl_length st"
    and "heap (setup_word st s) =
           (case map_of (AList.update (deaccent s) a (words st)) (invert (deaccent s)) of
              None \<Rightarrow> h1
            | Some i \<Rightarrow> if Word_bool (h1 ! i) then Inverted_set h1 a (Some i) else h1)"
  using assms Word_init_props(3) [OF assms]
  by (simp_all add: setup_word_def Let_def)

lemma index_ok_setup_word:
  assumes ok: "index_ok st"
  shows "index_ok (setup_word st s)"
proof -
  obtain a h1 where wi: "Word_init (heap st) s = (a, h1)" by (cases "Word_init (heap st) s")
  note f = setup_word_fields [OF wi]
  note wp = Word_init_props [OF wi]
  let ?d = "deaccent s"
  let ?ws = "AList.update ?d a (words st)"
  let ?st = "setup_word st s"
  from ok have pok: "partners_ok (heap st)" and dist: "distinct (map fst (words st))"
    and keys: "\<And>k b. map_of (words st) k = Some b \<Longrightarrow>
                 b < length (heap st) \<and> deaccented (heap st ! b) = k"
    and items: "\<And>key its i. map_of (l_and_p st) key = Some its \<Longrightarrow> i \<in> set its \<Longrightarrow>
                 map_of (words st) i \<noteq> None"
    by (auto simp: index_ok_def)
  have pok1: "partners_ok h1" by (rule partners_ok_Word_init [OF pok wi])
  have keys1: "\<And>k b. map_of ?ws k = Some b \<Longrightarrow> b < length h1 \<and> deaccented (h1 ! b) = k"
  proof -
    fix k b assume "map_of ?ws k = Some b"
    then have "(k = ?d \<and> b = a) \<or> map_of (words st) k = Some b"
      by (auto simp: update_conv' split: if_splits)
    then show "b < length h1 \<and> deaccented (h1 ! b) = k"
    proof
      assume "k = ?d \<and> b = a"
      then show ?thesis using wp(1,2,3) by simp
    next
      assume "map_of (words st) k = Some b"
      from keys [OF this] show ?thesis using wp(2,5) by simp
    qed
  qed
  have len: "length (heap ?st) = length h1"
    by (simp add: f length_Inverted_set split: option.splits)
  have dea: "\<And>b. deaccented (heap ?st ! b) = deaccented (h1 ! b)"
    by (simp add: f deaccented_Inverted_set split: option.splits)
  have p2: "partners_ok (heap ?st)"
  proof (cases "map_of ?ws (invert ?d)")
    case None
    then show ?thesis using pok1 by (simp add: f)
  next
    case (Some i)
    from keys1 [OF Some] have i: "i < length h1" "deaccented (h1 ! i) = rev (deaccented (h1 ! a))"
      using wp by (simp_all add: invert_def)
    have "partners_ok (Inverted_set h1 a (Some i))"
      by (rule partners_ok_Inverted_set [OF pok1 _ i]) (simp add: wp)
    then show ?thesis using Some pok1 by (simp add: f)
  qed
  have d2: "distinct (map fst (words ?st))"
    by (simp add: f distinct_update dist)
  have k2: "\<forall>k b. map_of (words ?st) k = Some b \<longrightarrow>
              b < length (heap ?st) \<and> deaccented (heap ?st ! b) = k"
    using keys1 by (simp add: f(1) len dea)
  have i2: "\<forall>key its i. map_of (l_and_p ?st) key = Some its \<longrightarrow> i \<in> set its \<longrightarrow>
              map_of (words ?st) i \<noteq> None"
  proof (intro allI impI)
    fix key its i
    assume "map_of (l_and_p ?st) key = Some its" "i \<in> set its"
    then have "i = ?d \<or> (\<exists>old. map_of (l_and_p st) key = Some old \<and> i \<in> set old)"
      by (auto simp: f(2) dest: register_items)
    then show "map_of (words ?st) i \<noteq> None"
    proof (elim disjE exE conjE)
      assume "i = ?d"
      then show ?thesis by (simp add: f(1) update_conv')
    next
      fix old assume "map_of (l_and_p st) key = Some old" "i \<in> set old"
      from items [OF this] show ?thesis by (simp add: f(1) update_conv')
    qed
  qed
  show ?thesis unfolding index_ok_def using p2 d2 k2 i2 by blast
qed

lemma index_ok_foldl: "index_ok st \<Longrightarrow> index_ok (foldl setup_word st xs)"
  by (induction xs arbitrary: st) (simp_all add: index_ok_setup_word)

lemma raw_words_foldl: "raw_words (foldl setup_word st xs) = raw_words st"
proof (induction xs arbitrary: st)
  case Nil
  then show ?case by simp
next
  case (Cons x xs)
  obtain a h1 where "Word_init (heap st) x = (a, h1)" by (cases "Word_init (heap st) x")
  with Cons show ?case by (simp add: setup_word_fields(3))
qed

lemma index_ok_WordsList_init: "index_ok (WordsList_init ws len)"
  unfolding WordsList_init_def WordsList_setup_def
  by (rule index_ok_foldl) (simp add: index_ok_def partners_ok_def)

text \<open>
  C5. After \<^verbatim>\<open>WordsList.setup\<close>, every indexed word \<open>w\<close> whose reverse partner
  \<open>p\<close> is not \<^verbatim>\<open>None\<close>: the partner of \<open>p\<close> is not \<^verbatim>\<open>None\<close> and equals \<open>w\<close>
  under \<^verbatim>\<open>Word.__eq__\<close>, and the reversal of the normalized form of \<open>w\<close> is the
  normalized form of \<open>p\<close>.
\<close>

theorem reverse_partner_symmetric:
  assumes "w \<in> snd ` set (words (WordsList_init ws len))"
    and "inverted (heap (WordsList_init ws len) ! w) = Some p"
  shows "\<exists>q. inverted (heap (WordsList_init ws len) ! p) = Some q
           \<and> Word_eq (heap (WordsList_init ws len) ! q) (heap (WordsList_init ws len) ! w)
           \<and> invert (deaccented (heap (WordsList_init ws len) ! w))
               = deaccented (heap (WordsList_init ws len) ! p)"
proof -
  let ?st = "WordsList_init ws len"
  have ok: "index_ok ?st" by (rule index_ok_WordsList_init)
  from assms(1) obtain k where "(k, w) \<in> set (words ?st)" by auto
  with ok have "map_of (words ?st) k = Some w" by (simp add: index_ok_def)
  with ok have w: "w < length (heap ?st)" by (simp add: index_ok_def)
  from ok have pok: "partners_ok (heap ?st)" by (simp add: index_ok_def)
  from pok w assms(2) have p: "p < length (heap ?st)"
    "deaccented (heap ?st ! p) = rev (deaccented (heap ?st ! w))" "inverted (heap ?st ! p) \<noteq> None"
    unfolding partners_ok_def by blast+
  then obtain q where q: "inverted (heap ?st ! p) = Some q" by auto
  with pok p(1) have "deaccented (heap ?st ! q) = rev (deaccented (heap ?st ! p))"
    unfolding partners_ok_def by blast
  with p(2) have "deaccented (heap ?st ! q) = deaccented (heap ?st ! w)" by simp
  with q p(2) show ?thesis by (simp add: Word_eq_def invert_def)
qed

theorem reverse_partner_symmetric_witness:
  "0 \<in> snd ` set (words (WordsList_init [[98, 225], [98, 97], [97, 98]] (Some 2)))
   \<and> inverted (heap (WordsList_init [[98, 225], [98, 97], [97, 98]] (Some 2)) ! 0) = Some 1
   \<and> (\<exists>q. inverted (heap (WordsList_init [[98, 225], [98, 97], [97, 98]] (Some 2)) ! 1) = Some q
          \<and> Word_eq (heap (WordsList_init [[98, 225], [98, 97], [97, 98]] (Some 2)) ! q)
               (heap (WordsList_init [[98, 225], [98, 97], [97, 98]] (Some 2)) ! 0)
          \<and> invert (deaccented (heap (WordsList_init [[98, 225], [98, 97], [97, 98]] (Some 2)) ! 0))
               = deaccented (heap (WordsList_init [[98, 225], [98, 97], [97, 98]] (Some 2)) ! 1))"
proof -
  have h1: "0 \<in> snd ` set (words (WordsList_init [[98, 225], [98, 97], [97, 98]] (Some 2)))"
    by code_simp
  have h2: "inverted (heap (WordsList_init [[98, 225], [98, 97], [97, 98]] (Some 2)) ! 0) = Some 1"
    by code_simp
  show ?thesis
    by (intro conjI) (rule h1, rule h2, rule reverse_partner_symmetric [OF h1 h2])
qed


lemma matching_items_sound:
  "c \<in> set (fst (matching_items st letters position len items)) \<Longrightarrow>
   \<exists>item \<in> set items. length_ok len item \<and> map_of (words st) item = Some c
      \<and> take (length letters) (drop position (deaccented (heap st ! c))) = letters"
  by (induction items) (auto split: if_splits option.splits prod.splits)

lemma matching_items_no_fault:
  "\<forall>i \<in> set items. map_of (words st) i \<noteq> None \<Longrightarrow>
   snd (matching_items st letters position len items) = None"
  by (induction items) (auto split: if_splits option.splits prod.splits)

text \<open>
  C7. Every word yielded by \<^verbatim>\<open>word_for_letters_in_position\<close> for a non-empty
  pattern, on an index built by \<^verbatim>\<open>WordsList\<close>, has the pattern as the part of its
  normalized form that starts at \<open>position\<close>, and, when the length argument is given
  and not \<open>0\<close>, a normalized form of that length.
\<close>

theorem word_for_letters_in_position_sound:
  assumes "letters \<noteq> []"
    and "c \<in> set (fst (word_for_letters_in_position (WordsList_init ws wl) letters position len))"
  shows "take (length letters) (drop position (deaccented (heap (WordsList_init ws wl) ! c)))
           = letters
         \<and> (\<forall>l. len = Some l \<and> l \<noteq> 0 \<longrightarrow>
               length (deaccented (heap (WordsList_init ws wl) ! c)) = l)"
proof -
  let ?st = "WordsList_init ws wl"
  have ok: "index_ok ?st" by (rule index_ok_WordsList_init)
  from assms obtain l0 ls where l: "letters = l0 # ls" by (cases letters) auto
  with assms(2) have "c \<in> set (fst (matching_items ?st letters position len
        (case map_of (l_and_p ?st) (l0, position) of None \<Rightarrow> [] | Some s \<Rightarrow> s)))"
    by (simp add: word_for_letters_in_position_def)
  from matching_items_sound [OF this] obtain item where
    i: "length_ok len item" "map_of (words ?st) item = Some c"
      "take (length letters) (drop position (deaccented (heap ?st ! c))) = letters"
    by blast
  from ok i(2) have "deaccented (heap ?st ! c) = item" by (simp add: index_ok_def)
  with i(1,3) show ?thesis by (auto simp: length_ok_def)
qed

theorem word_for_letters_in_position_sound_witness:
  "[111, 116, 97] \<noteq> ([] :: nat list)
   \<and> 0 \<in> set (fst (word_for_letters_in_position
                     (WordsList_init [[115, 97, 116, 111, 114], [114, 111, 116, 97, 115]] None)
                     [111, 116, 97] 1 (Some 5)))
   \<and> take (length [111, 116, 97 :: nat]) (drop 1 (deaccented
        (heap (WordsList_init [[115, 97, 116, 111, 114], [114, 111, 116, 97, 115]] None) ! 0)))
       = [111, 116, 97]
   \<and> length (deaccented
        (heap (WordsList_init [[115, 97, 116, 111, 114], [114, 111, 116, 97, 115]] None) ! 0)) = 5"
proof -
  have h1: "[111, 116, 97] \<noteq> ([] :: nat list)" by simp
  have h2: "0 \<in> set (fst (word_for_letters_in_position
                     (WordsList_init [[115, 97, 116, 111, 114], [114, 111, 116, 97, 115]] None)
                     [111, 116, 97] 1 (Some 5)))"
    by code_simp
  have h3: "Some (5::nat) = Some 5 \<and> (5::nat) \<noteq> 0" by simp
  note t = word_for_letters_in_position_sound [OF h1 h2]
  have a: "take (length [111, 116, 97 :: nat]) (drop 1 (deaccented
        (heap (WordsList_init [[115, 97, 116, 111, 114], [114, 111, 116, 97, 115]] None) ! 0)))
       = [111, 116, 97]" by (rule t [THEN conjunct1])
  have b: "length (deaccented
        (heap (WordsList_init [[115, 97, 116, 111, 114], [114, 111, 116, 97, 115]] None) ! 0)) = 5"
    by (rule t [THEN conjunct2, THEN spec, THEN mp, OF h3])
  show ?thesis by (intro conjI) (rule h1, rule h2, rule a, rule b)
qed


lemma required_letters_length:
  "required_letters h k rows = Inr r \<Longrightarrow> length r = length rows"
  by (induction rows arbitrary: r) (auto split: option.splits if_splits sum.splits)

lemma list_slice_ring:
  assumes "pos \<le> middle_pos L" "1 \<le> pos" "length xs = L"
  shows "length (list_slice xs (int pos) (int L - int pos)) = L - 2 * pos" "1 \<le> L - 2 * pos"
proof -
  from assms(1,2) have b: "2 * pos + 1 \<le> L" by (simp add: middle_pos_def)
  then show "1 \<le> L - 2 * pos" by simp
  from b have "slice_bound L (int pos) = pos" "slice_bound L (int L - int pos) = L - pos"
    by (simp_all add: slice_bound_def) 
  with assms(3) b show "length (list_slice xs (int pos) (int L - int pos)) = L - 2 * pos"
    by (simp add: list_slice_def Let_def)
qed

text \<open>
  C10. \<^verbatim>\<open>word_for_letters_in_position\<close> raises IndexError on the empty pattern; on
  a non-empty pattern, over an index built by \<^verbatim>\<open>WordsList\<close>, it raises nothing; and
  the pattern that \<^verbatim>\<open>iter_sator_for_central\<close> builds at a ring \<open>pos\<close> with
  \<open>1 \<le> pos \<le> middle_pos\<close>, from a grid of \<open>L\<close> slots, has length \<open>L - 2 * pos\<close>,
  which is at least \<open>1\<close>.
\<close>

theorem pattern_never_empty:
  "word_for_letters_in_position st [] position len = ([], Some IndexError)
   \<and> (letters \<noteq> [] \<longrightarrow>
        snd (word_for_letters_in_position (WordsList_init ws wl) letters position len) = None)
   \<and> (1 \<le> pos \<and> pos \<le> middle_pos L \<and> length (content g) = L
        \<and> required_letters h (pos - 1) (list_slice (content g) (int pos) (int L - int pos)) = Inr r
      \<longrightarrow> length r = L - 2 * pos \<and> 1 \<le> length r)"
proof -
  have a: "word_for_letters_in_position st [] position len = ([], Some IndexError)"
    by (simp add: word_for_letters_in_position_def)
  have b: "letters \<noteq> [] \<longrightarrow>
        snd (word_for_letters_in_position (WordsList_init ws wl) letters position len) = None"
  proof
    assume "letters \<noteq> []"
    then obtain l0 ls where l: "letters = l0 # ls" by (cases letters) auto
    have ok: "index_ok (WordsList_init ws wl)" by (rule index_ok_WordsList_init)
    have "\<forall>i \<in> set (case map_of (l_and_p (WordsList_init ws wl)) (l0, position) of None \<Rightarrow> [] | Some s \<Rightarrow> s).
            map_of (words (WordsList_init ws wl)) i \<noteq> None"
    proof (cases "map_of (l_and_p (WordsList_init ws wl)) (l0, position)")
      case None
      then show ?thesis by simp
    next
      case (Some its)
      with ok show ?thesis unfolding index_ok_def by (simp del: not_None_eq)
    qed
    from matching_items_no_fault [OF this] l
    show "snd (word_for_letters_in_position (WordsList_init ws wl) letters position len) = None"
      by (simp add: word_for_letters_in_position_def)
  qed
  have c: "1 \<le> pos \<and> pos \<le> middle_pos L \<and> length (content g) = L
        \<and> required_letters h (pos - 1) (list_slice (content g) (int pos) (int L - int pos)) = Inr r
      \<longrightarrow> length r = L - 2 * pos \<and> 1 \<le> length r"
  proof (intro impI, elim conjE)
    assume h: "1 \<le> pos" "pos \<le> middle_pos L" "length (content g) = L"
      "required_letters h (pos - 1) (list_slice (content g) (int pos) (int L - int pos)) = Inr r"
    from required_letters_length [OF h(4)] list_slice_ring [OF h(2,1,3)]
    show "length r = L - 2 * pos \<and> 1 \<le> length r" by simp
  qed
  from a b c show ?thesis by blast
qed

theorem pattern_never_empty_witness:
  "[116] \<noteq> ([] :: nat list)
   \<and> snd (word_for_letters_in_position
            (WordsList_init [[115, 97, 116, 111, 114], [114, 111, 116, 97, 115]] (Some 5))
            [116] 2 (Some 5)) = None
   \<and> (1::nat) \<le> 1 \<and> 1 \<le> middle_pos 5
   \<and> required_letters [\<lparr>original = [97, 98, 99, 100, 101], deaccented = [97, 98, 99, 100, 101],
                          inverted = None\<rparr>] (1 - 1)
        (list_slice (content \<lparr>oid = 0, slen = 5, content = [None, Some 0, Some 0, Some 0, None]\<rparr>)
           (int 1) (int 5 - int 1)) = Inr [97, 97, 97]
   \<and> length [97, 97, 97 :: nat] = 5 - 2 * 1"
proof -
  let ?h = "[\<lparr>original = [97, 98, 99, 100, 101], deaccented = [97, 98, 99, 100, 101],
              inverted = None\<rparr>]"
  let ?g = "\<lparr>oid = 0, slen = 5, content = [None, Some 0, Some 0, Some 0, None]\<rparr>"
  have h1: "[116] \<noteq> ([] :: nat list)" by simp
  have h2: "(1::nat) \<le> 1" by simp
  have h3: "1 \<le> middle_pos 5" by (simp add: middle_pos_def) 
  have h4: "length (content ?g) = 5" by simp
  have h5: "required_letters ?h (1 - 1) (list_slice (content ?g) (int 1) (int 5 - int 1))
            = Inr [97, 97, 97]"
    by (simp add: list_slice_def slice_bound_def)
  note t = pattern_never_empty [where letters = "[116]"
        and ws = "[[115, 97, 116, 111, 114], [114, 111, 116, 97, 115]]" and wl = "Some 5"
        and position = 2 and len = "Some 5" and pos = 1 and L = 5 and g = ?g and h = ?h
        and r = "[97, 97, 97]"]
  have a: "snd (word_for_letters_in_position
            (WordsList_init [[115, 97, 116, 111, 114], [114, 111, 116, 97, 115]] (Some 5))
            [116] 2 (Some 5)) = None"
    by (rule t [THEN conjunct2, THEN conjunct1, THEN mp, OF h1])
  have b: "length [97, 97, 97 :: nat] = 5 - 2 * 1"
    by (rule t [THEN conjunct2, THEN conjunct2, THEN mp,
                OF conjI [OF h2 conjI [OF h3 conjI [OF h4 h5]]], THEN conjunct1])
  show ?thesis by (intro conjI) (rule h1, rule a, rule h2, rule h3, rule h5, rule b)
qed


lemma raw_words_WordsList_init:
  "raw_words (WordsList_init ws len) = filter (length_ok len) (sort ws)"
  by (simp add: WordsList_init_def WordsList_setup_def raw_words_foldl)

text \<open>
  The length filter of C9 keeps every word when the target length is \<open>0\<close>:
  \<^verbatim>\<open>not length\<close> is true for \<open>0\<close> as it is for \<^verbatim>\<open>None\<close>. \<^verbatim>\<open>WordsList(['ab'], 0)\<close>
  keeps \<open>ab\<close>, whose normalized form has length \<open>2\<close>, not the target length \<open>0\<close>.
\<close>

theorem length_filter_keeps_all_at_zero:
  "raw_words (WordsList_init [[97, 98]] (Some 0)) = [[97, 98]]
   \<and> length (deaccent [97, 98]) = 2"
  by code_simp

text \<open>
  C9, amended. Normalization preserves the length of a string; so the length filter
  of \<^verbatim>\<open>WordsList\<close>, applied to the raw strings with a target length that is not
  \<open>0\<close>, keeps exactly the words whose normalized form has the target length; and the
  letter at a position of the normalized form is the normalization of the letter at
  that position of the original.
\<close>

theorem deaccent_preserves_length:
  "length (deaccent s) = length s
   \<and> (l \<noteq> 0 \<longrightarrow> raw_words (WordsList_init ws (Some l))
                   = filter (\<lambda>w. length (deaccent w) = l) (sort ws))
   \<and> (\<forall>i < length s. [deaccent s ! i] = deaccent [s ! i])"
proof -
  have "filter (length_ok (Some l)) (sort ws) = filter (\<lambda>w. length (deaccent w) = l) (sort ws)"
    if "l \<noteq> 0"
    using that by (intro filter_cong) (simp_all add: length_ok_def length_deaccent)
  then show ?thesis
    by (simp add: raw_words_WordsList_init length_deaccent deaccent_map)
qed

theorem deaccent_preserves_length_witness:
  "(2::nat) \<noteq> 0 \<and> (1::nat) < length [98, 225 :: nat]
   \<and> raw_words (WordsList_init [[98, 225], [97], [97, 98]] (Some 2))
       = filter (\<lambda>w. length (deaccent w) = 2) (sort [[98, 225], [97], [97, 98]])
   \<and> [deaccent [98, 225] ! 1] = deaccent [[98, 225] ! 1]"
proof -
  have h1: "(2::nat) \<noteq> 0" and h2: "(1::nat) < length [98, 225 :: nat]" by simp_all
  note t = deaccent_preserves_length [of "[98, 225]" 2 "[[98, 225], [97], [97, 98]]"]
  have a: "raw_words (WordsList_init [[98, 225], [97], [97, 98]] (Some 2))
       = filter (\<lambda>w. length (deaccent w) = 2) (sort [[98, 225], [97], [97, 98]])"
    by (rule t [THEN conjunct2, THEN conjunct1, THEN mp, OF h1])
  have b: "[deaccent [98, 225] ! 1] = deaccent [[98, 225] ! 1]"
    by (rule t [THEN conjunct2, THEN conjunct2, THEN spec, THEN mp, OF h2])
  show ?thesis by (intro conjI) (rule h1, rule h2, rule a, rule b)
qed

section \<open>Placing a word in a grid\<close>

lemma list_setitem_nat:
  "i < length xs \<Longrightarrow> list_setitem xs (int i) v = Inr (xs[i := v])"
  by (simp add: list_setitem_def Let_def)

lemma copy_with_word_in_pos_result:
  assumes len: "length (content g) = slen g" and pos: "pos < slen g"
    and p: "inverted (h ! w) = Some p" and ne: "deaccented (h ! p) \<noteq> []"
  shows "copy_with_word_in_pos h g (Some w) pos ident =
           Inr \<lparr>oid = ident, slen = slen g,
                content = (if 2 * pos + 1 = slen g then (content g)[pos := Some w]
                           else (content g)[pos := Some w, slen g - 1 - pos := Some p])\<rparr>"
proof -
  let ?c = "content g"
  from len pos have c: "?c \<noteq> []" by auto
  have init: "Sator_init ident (slen g) (Some ?c) = Inr \<lparr>oid = ident, slen = slen g, content = ?c\<rparr>"
    using c len by (simp add: Sator_init_def)
  have t: "truthy h (inverted (h ! w))" using p ne by (simp add: truthy_def Word_bool_def)
  have s1: "list_setitem ?c (int pos) (Some w) = Inr (?c[pos := Some w])"
    using len pos by (simp add: list_setitem_nat)
  have m: "int (slen g) - int pos - 1 = int (slen g - 1 - pos)" using pos by simp
  have s2: "list_setitem (?c[pos := Some w]) (int (slen g) - int pos - 1) (Some p)
              = Inr (?c[pos := Some w, slen g - 1 - pos := Some p])"
    unfolding m using len pos by (intro list_setitem_nat) simp
  show ?thesis
    using init t s1 s2 p by (simp add: copy_with_word_in_pos_def Sator_setitem_def)
qed

text \<open>
  The placement of C6 fails for a word whose reverse partner is set but empty, and for
  a position that is no slot of the grid. \<^verbatim>\<open>Word("")\<close> is its own partner, by
  \<^verbatim>\<open>Word.__init__\<close>, and is false, so the assertion of \<^verbatim>\<open>__setitem__\<close> fails;
  position \<open>2\<close> of a grid of two slots raises IndexError.
\<close>

theorem copy_with_word_in_pos_empty_word:
  "inverted (snd (Word_init [] []) ! 0) = Some 0
   \<and> Sator_init 0 1 None = Inr \<lparr>oid = 0, slen = 1, content = [None]\<rparr>
   \<and> copy_with_word_in_pos (snd (Word_init [] [])) \<lparr>oid = 0, slen = 1, content = [None]\<rparr>
        (Some 0) 0 1 = Inl AssertionError
   \<and> inverted (heap (WordsList_init [[97, 98], [98, 97]] None) ! 0) = Some 1
   \<and> copy_with_word_in_pos (heap (WordsList_init [[97, 98], [98, 97]] None))
        \<lparr>oid = 0, slen = 2, content = [None, None]\<rparr> (Some 0) 2 1 = Inl IndexError"
  by code_simp

text \<open>
  C6, amended. For every grid \<open>g\<close> with \<open>length\<close> slots, every position
  \<open>pos < length\<close> and every word \<open>w\<close> whose reverse partner \<open>p\<close> is set and not
  empty, \<^verbatim>\<open>copy_with_word_in_pos\<close> returns a grid \<open>g2\<close> of the same length with
  \<open>g2[pos] = w\<close>; with \<open>g2[length - 1 - pos] = p\<close> unless \<open>2 * pos + 1 = length\<close>,
  where only slot \<open>pos\<close> is set; and every slot other than \<open>pos\<close> and
  \<open>length - 1 - pos\<close> as in \<open>g\<close>.
\<close>

theorem copy_with_word_in_pos_places:
  assumes len: "length (content g) = slen g" and pos: "pos < slen g"
    and p: "inverted (h ! w) = Some p" and ne: "deaccented (h ! p) \<noteq> []"
  shows "\<exists>g2. copy_with_word_in_pos h g (Some w) pos ident = Inr g2
           \<and> slen g2 = slen g \<and> length (content g2) = slen g
           \<and> content g2 ! pos = Some w
           \<and> (2 * pos + 1 \<noteq> slen g \<longrightarrow> content g2 ! (slen g - 1 - pos) = Some p)
           \<and> (\<forall>i < slen g. i \<noteq> pos \<and> i \<noteq> slen g - 1 - pos
                  \<longrightarrow> content g2 ! i = content g ! i)"
proof -
  let ?g2 = "\<lparr>oid = ident, slen = slen g,
              content = (if 2 * pos + 1 = slen g then (content g)[pos := Some w]
                         else (content g)[pos := Some w, slen g - 1 - pos := Some p])\<rparr>"
  have r: "copy_with_word_in_pos h g (Some w) pos ident = Inr ?g2"
    by (rule copy_with_word_in_pos_result [OF assms])
  have "slen g - 1 - pos \<noteq> pos" if "2 * pos + 1 \<noteq> slen g"
    using that pos by arith
  then have "slen ?g2 = slen g \<and> length (content ?g2) = slen g
      \<and> content ?g2 ! pos = Some w
      \<and> (2 * pos + 1 \<noteq> slen g \<longrightarrow> content ?g2 ! (slen g - 1 - pos) = Some p)
      \<and> (\<forall>i < slen g. i \<noteq> pos \<and> i \<noteq> slen g - 1 - pos
            \<longrightarrow> content ?g2 ! i = content g ! i)"
    using len pos by (simp add: nth_list_update)
  with r show ?thesis by blast
qed

theorem copy_with_word_in_pos_places_witness:
  "length (content \<lparr>oid = 0, slen = 2, content = [None, None]\<rparr>)
     = slen \<lparr>oid = 0, slen = 2, content = [None, None]\<rparr>
   \<and> 0 < slen \<lparr>oid = 0, slen = 2, content = [None, None]\<rparr>
   \<and> inverted (heap (WordsList_init [[97, 98], [98, 97]] None) ! 0) = Some 1
   \<and> deaccented (heap (WordsList_init [[97, 98], [98, 97]] None) ! 1) \<noteq> []
   \<and> (\<exists>g2. copy_with_word_in_pos (heap (WordsList_init [[97, 98], [98, 97]] None))
              \<lparr>oid = 0, slen = 2, content = [None, None]\<rparr> (Some 0) 0 1 = Inr g2
           \<and> slen g2 = slen \<lparr>oid = 0, slen = 2, content = [None, None]\<rparr>
           \<and> length (content g2) = slen \<lparr>oid = 0, slen = 2, content = [None, None]\<rparr>
           \<and> content g2 ! 0 = Some 0
           \<and> (2 * 0 + 1 \<noteq> slen \<lparr>oid = 0, slen = 2, content = [None, None]\<rparr>
                \<longrightarrow> content g2 ! (slen \<lparr>oid = 0, slen = 2, content = [None, None]\<rparr> - 1 - 0) = Some 1)
           \<and> (\<forall>i < slen \<lparr>oid = 0, slen = 2, content = [None, None]\<rparr>.
                  i \<noteq> 0 \<and> i \<noteq> slen \<lparr>oid = 0, slen = 2, content = [None, None]\<rparr> - 1 - 0
                  \<longrightarrow> content g2 ! i = content \<lparr>oid = 0, slen = 2, content = [None, None]\<rparr> ! i))"
proof -
  let ?g = "\<lparr>oid = 0, slen = 2, content = [None, None]\<rparr>"
  have h1: "length (content ?g) = slen ?g" by simp
  have h2: "0 < slen ?g" by simp
  have h3: "inverted (heap (WordsList_init [[97, 98], [98, 97]] None) ! 0) = Some 1"
    by code_simp
  have h4: "deaccented (heap (WordsList_init [[97, 98], [98, 97]] None) ! 1) \<noteq> []"
    by code_simp
  show ?thesis
    by (intro conjI) (rule h1, rule h2, rule h3, rule h4,
          rule copy_with_word_in_pos_places [OF h1 h2 h3 h4])
qed

section \<open>The recursive step of the search\<close>

lemma explore_candidates_no_partner:
  "\<forall>c \<in> set cands. inverted (heap (windex S) ! c) = None \<Longrightarrow>
   explore_candidates S p ns cands nw nxt = ([], None, nw, nxt)"
  by (induction cands) (simp_all add: truthy_def)

text \<open>
  C4. In \<^verbatim>\<open>iter_sator_for_central\<close>, once the word is placed: at \<open>pos = 0\<close> the
  new grid is yielded, whatever the index holds; at \<open>pos > 0\<close>, when no candidate that
  matches the required letters has a reverse partner, the new grid is yielded if
  \<open>near_miss \<ge> pos\<close> and nothing is yielded otherwise.
\<close>

theorem iter_sator_for_central_yields:
  "(copy_with_word_in_pos (heap (windex S)) sator
        (inverted (heap (windex S) ! running_word)) 0 nxt = Inr new_sator
      \<longrightarrow> iter_sator_for_central S running_word 0 sator nxt = ([new_sator], None, Suc nxt))
   \<and> (copy_with_word_in_pos (heap (windex S)) sator
        (inverted (heap (windex S) ! running_word)) (Suc p) nxt = Inr new_sator
      \<and> required_letters (heap (windex S)) p
           (list_slice (content new_sator) (int (Suc p)) (int (s_length S) - int (Suc p)))
         = Inr required
      \<and> word_for_letters_in_position (windex S) required (Suc p) (Some (s_length S))
         = (cands, None)
      \<and> (\<forall>c \<in> set cands. inverted (heap (windex S) ! c) = None)
      \<longrightarrow> iter_sator_for_central S running_word (Suc p) sator nxt
           = (if near_miss S \<ge> int (Suc p) then [new_sator] else [], None, Suc nxt))"
  by (simp add: explore_candidates_no_partner)

theorem iter_sator_for_central_yields_witness:
  "copy_with_word_in_pos
      (heap (windex \<lparr>windex = WordsList_init [[97, 98, 98, 97], [120, 97, 97, 121]] (Some 4),
                      near_miss = 1, s_length = 4\<rparr>))
      \<lparr>oid = 0, slen = 4, content = [None, None, None, None]\<rparr>
      (inverted (heap (windex \<lparr>windex = WordsList_init [[97, 98, 98, 97], [120, 97, 97, 121]] (Some 4),
                      near_miss = 1, s_length = 4\<rparr>) ! 0)) 0 1
     = Inr \<lparr>oid = 1, slen = 4, content = [Some 0, None, None, Some 0]\<rparr>
   \<and> iter_sator_for_central
        \<lparr>windex = WordsList_init [[97, 98, 98, 97], [120, 97, 97, 121]] (Some 4),
          near_miss = 1, s_length = 4\<rparr> 0 0
        \<lparr>oid = 0, slen = 4, content = [None, None, None, None]\<rparr> 1
       = ([\<lparr>oid = 1, slen = 4, content = [Some 0, None, None, Some 0]\<rparr>], None, Suc 1)
   \<and> word_for_letters_in_position
        (windex \<lparr>windex = WordsList_init [[97, 98, 98, 97], [120, 97, 97, 121]] (Some 4),
                  near_miss = 1, s_length = 4\<rparr>) [97, 97] (Suc 0)
        (Some (s_length \<lparr>windex = WordsList_init [[97, 98, 98, 97], [120, 97, 97, 121]] (Some 4),
                  near_miss = 1, s_length = 4\<rparr>))
       = ([1], None)
   \<and> iter_sator_for_central
        \<lparr>windex = WordsList_init [[97, 98, 98, 97], [120, 97, 97, 121]] (Some 4),
          near_miss = 1, s_length = 4\<rparr> 0 (Suc 0)
        \<lparr>oid = 0, slen = 4, content = [None, None, None, None]\<rparr> 1
       = (if near_miss \<lparr>windex = WordsList_init [[97, 98, 98, 97], [120, 97, 97, 121]] (Some 4),
                         near_miss = 1, s_length = 4\<rparr> \<ge> int (Suc 0)
          then [\<lparr>oid = 1, slen = 4, content = [None, Some 0, Some 0, None]\<rparr>] else [],
          None, Suc 1)"
proof -
  let ?S = "\<lparr>windex = WordsList_init [[97, 98, 98, 97], [120, 97, 97, 121]] (Some 4),
             near_miss = 1, s_length = 4\<rparr>"
  let ?g = "\<lparr>oid = 0, slen = 4, content = [None, None, None, None]\<rparr>"
  let ?n0 = "\<lparr>oid = 1, slen = 4, content = [Some 0, None, None, Some 0]\<rparr>"
  let ?n1 = "\<lparr>oid = 1, slen = 4, content = [None, Some 0, Some 0, None]\<rparr>"
  have h0: "copy_with_word_in_pos (heap (windex ?S)) ?g (inverted (heap (windex ?S) ! 0)) 0 1
              = Inr ?n0"
    by code_simp
  have h1: "copy_with_word_in_pos (heap (windex ?S)) ?g (inverted (heap (windex ?S) ! 0)) (Suc 0) 1
              = Inr ?n1"
    by code_simp
  have h2: "required_letters (heap (windex ?S)) 0
              (list_slice (content ?n1) (int (Suc 0)) (int (s_length ?S) - int (Suc 0)))
            = Inr [97, 97]"
    by code_simp
  have h3: "word_for_letters_in_position (windex ?S) [97, 97] (Suc 0) (Some (s_length ?S))
            = ([1], None)"
    by code_simp
  have h4: "\<forall>c \<in> set [1]. inverted (heap (windex ?S) ! c) = None"
    by code_simp
  have a: "iter_sator_for_central ?S 0 0 ?g 1 = ([?n0], None, Suc 1)"
    by (rule iter_sator_for_central_yields [THEN conjunct1, THEN mp, OF h0])
  have b: "iter_sator_for_central ?S 0 (Suc 0) ?g 1
             = (if near_miss ?S \<ge> int (Suc 0) then [?n1] else [], None, Suc 1)"
    by (rule iter_sator_for_central_yields [THEN conjunct2, THEN mp,
               OF conjI [OF h1 conjI [OF h2 conjI [OF h3 h4]]]])
  show ?thesis by (intro conjI) (rule h0, rule a, rule h3, rule b)
qed

section \<open>The search over an index built by WordsList\<close>

text \<open>
  Over an index built by \<^verbatim>\<open>WordsList\<close>, and for a length that is not \<open>0\<close>, the
  search raises nothing: every placement passes its assertion and falls on a slot,
  every row that the required letters are read from is filled with a word of the
  length of the grid, and every pattern is non-empty. With \<open>near_miss < 1\<close> it yields
  only at \<open>pos = 0\<close>, where every slot is filled.
\<close>

lemma place_rows_ok:
  assumes pok: "partners_ok h" and rw: "rw < length h" and p: "inverted (h ! rw) = Some p"
    and len: "length (deaccented (h ! rw)) = L" and pos: "2 * pos + 1 \<le> L"
    and g: "rows_ok h L g (Suc pos) (L - Suc pos)"
  shows "\<exists>ns. copy_with_word_in_pos h g (inverted (h ! rw)) pos ident = Inr ns
           \<and> rows_ok h L ns pos (L - pos)"
proof -
  from pok rw p have p1: "p < length h" "deaccented (h ! p) = rev (deaccented (h ! rw))"
      "inverted (h ! p) \<noteq> None"
    unfolding partners_ok_def by blast+
  then obtain q where q: "inverted (h ! p) = Some q" by auto
  with pok p1(1) have q1: "q < length h" "deaccented (h ! q) = rev (deaccented (h ! p))"
    unfolding partners_ok_def by blast+
  from p1(2) len have lp: "length (deaccented (h ! p)) = L" by simp
  with q1(2) have lq: "length (deaccented (h ! q)) = L" by simp
  from pos lq have neq: "deaccented (h ! q) \<noteq> []" by auto
  from g have gl: "slen g = L" "length (content g) = L" by (simp_all add: rows_ok_def)
  from gl pos have gp: "length (content g) = slen g" "pos < slen g" by simp_all
  let ?ns = "\<lparr>oid = ident, slen = slen g,
              content = (if 2 * pos + 1 = slen g then (content g)[pos := Some p]
                         else (content g)[pos := Some p, slen g - 1 - pos := Some q])\<rparr>"
  have r: "copy_with_word_in_pos h g (inverted (h ! rw)) pos ident = Inr ?ns"
    unfolding p by (rule copy_with_word_in_pos_result [OF gp q neq])
  have "rows_ok h L ?ns pos (L - pos)"
    unfolding rows_ok_def
  proof (intro conjI allI impI)
    show "slen ?ns = L" using gl by simp
    show "length (content ?ns) = L" using gl by simp
    fix i assume i: "pos \<le> i \<and> i < L - pos"
    consider "i = pos" | "i \<noteq> pos" "i = L - 1 - pos" | "Suc pos \<le> i" "i < L - Suc pos"
      using i by linarith
    then show "\<exists>a. content ?ns ! i = Some a \<and> a < length h \<and> length (deaccented (h ! a)) = L"
    proof cases
      case 1
      then have "content ?ns ! i = Some p \<or> content ?ns ! i = Some q"
        using gl pos by (auto simp: nth_list_update)
      then show ?thesis using p1(1) q1(1) lp lq by auto
    next
      case 2
      then have "2 * pos + 1 \<noteq> L" using pos by auto
      with 2 have "content ?ns ! i = Some q"
        using gl pos by (simp add: nth_list_update)
      then show ?thesis using q1(1) lq by simp
    next
      case 3
      then have "content ?ns ! i = content g ! i"
        using gl by (auto simp: nth_list_update)
      with g 3 show ?thesis by (simp add: rows_ok_def)
    qed
  qed
  with r show ?thesis by blast
qed

lemma required_letters_total:
  "\<forall>w \<in> set rows. \<exists>a. w = Some a \<and> k < length (deaccented (h ! a)) \<Longrightarrow>
   \<exists>r. required_letters h k rows = Inr r"
  by (induction rows) auto

lemma required_letters_ring:
  assumes g: "rows_ok h L g (Suc k) (L - Suc k)" and pos: "2 * Suc k + 1 \<le> L"
  shows "\<exists>r. required_letters h k
               (list_slice (content g) (int (Suc k)) (int L - int (Suc k))) = Inr r
             \<and> r \<noteq> []"
proof -
  from g have gl: "length (content g) = L" by (simp add: rows_ok_def)
  from pos have b: "slice_bound L (int (Suc k)) = Suc k"
    "slice_bound L (int L - int (Suc k)) = L - Suc k"
    by (simp_all add: slice_bound_def)
  have sl: "list_slice (content g) (int (Suc k)) (int L - int (Suc k))
              = take (L - Suc k - Suc k) (drop (Suc k) (content g))"
    using gl b by (simp add: list_slice_def Let_def)
  have "\<forall>w \<in> set (take (L - Suc k - Suc k) (drop (Suc k) (content g))).
          \<exists>a. w = Some a \<and> k < length (deaccented (h ! a))"
  proof
    fix w assume "w \<in> set (take (L - Suc k - Suc k) (drop (Suc k) (content g)))"
    then obtain j where j: "j < L - Suc k - Suc k" "w = content g ! (Suc k + j)"
      using gl by (auto simp: in_set_conv_nth)
    then have "Suc k \<le> Suc k + j \<and> Suc k + j < L - Suc k" by linarith
    with g obtain a where "content g ! (Suc k + j) = Some a" "length (deaccented (h ! a)) = L"
      unfolding rows_ok_def by blast
    with j pos show "\<exists>a. w = Some a \<and> k < length (deaccented (h ! a))" by auto
  qed
  from required_letters_total [OF this] obtain r where
    r: "required_letters h k (take (L - Suc k - Suc k) (drop (Suc k) (content g))) = Inr r"
    by blast
  from required_letters_length [OF r] gl pos have "length r = L - Suc k - Suc k" by simp
  with pos have "r \<noteq> []" by auto
  with r sl show ?thesis by simp
qed

lemma candidates_ok:
  assumes ok: "index_ok st" and ne: "letters \<noteq> []" and L: "L \<noteq> 0"
    and w: "word_for_letters_in_position st letters position (Some L) = (cands, cf)"
  shows "cf = None" "\<forall>c \<in> set cands. c < length (heap st) \<and> length (deaccented (heap st ! c)) = L"
proof -
  from ne obtain l0 ls where l: "letters = l0 # ls" by (cases letters) auto
  let ?items = "case map_of (l_and_p st) (l0, position) of None \<Rightarrow> [] | Some s \<Rightarrow> s"
  from w l have m: "matching_items st letters position (Some L) ?items = (cands, cf)"
    by (simp add: word_for_letters_in_position_def)
  have "\<forall>i \<in> set ?items. map_of (words st) i \<noteq> None"
  proof (cases "map_of (l_and_p st) (l0, position)")
    case None
    then show ?thesis by simp
  next
    case (Some its)
    with ok show ?thesis unfolding index_ok_def by (simp del: not_None_eq)
  qed
  from matching_items_no_fault [OF this, of letters position "Some L"] m show "cf = None" by simp
  show "\<forall>c \<in> set cands. c < length (heap st) \<and> length (deaccented (heap st ! c)) = L"
  proof
    fix c assume "c \<in> set cands"
    with m have "c \<in> set (fst (matching_items st letters position (Some L) ?items))" by simp
    from matching_items_sound [OF this] obtain item where
      i: "length_ok (Some L) item" "map_of (words st) item = Some c" by blast
    from ok i(2) have "c < length (heap st)" "deaccented (heap st ! c) = item"
      by (simp_all add: index_ok_def)
    with i(1) L show "c < length (heap st) \<and> length (deaccented (heap st ! c)) = L"
      by (simp add: length_ok_def)
  qed
qed

lemma search_no_fault:
  "(index_ok (windex S) \<longrightarrow> rw < length (heap (windex S)) \<longrightarrow>
      inverted (heap (windex S) ! rw) \<noteq> None \<longrightarrow>
      length (deaccented (heap (windex S) ! rw)) = s_length S \<longrightarrow>
      2 * pos + 1 \<le> s_length S \<longrightarrow>
      rows_ok (heap (windex S)) (s_length S) sator (Suc pos) (s_length S - Suc pos) \<longrightarrow>
      fst (snd (iter_sator_for_central S rw pos sator nxt)) = None
      \<and> (near_miss S < 1 \<longrightarrow>
           (\<forall>g \<in> set (fst (iter_sator_for_central S rw pos sator nxt)).
              rows_ok (heap (windex S)) (s_length S) g 0 (s_length S))))"
  and
  "(index_ok (windex S) \<longrightarrow>
      (\<forall>c \<in> set cands. c < length (heap (windex S))
           \<and> length (deaccented (heap (windex S) ! c)) = s_length S) \<longrightarrow>
      2 * p + 1 \<le> s_length S \<longrightarrow>
      rows_ok (heap (windex S)) (s_length S) ns (Suc p) (s_length S - Suc p) \<longrightarrow>
      fst (snd (explore_candidates S p ns cands nw nxt)) = None
      \<and> (near_miss S < 1 \<longrightarrow>
           (\<forall>g \<in> set (fst (explore_candidates S p ns cands nw nxt)).
              rows_ok (heap (windex S)) (s_length S) g 0 (s_length S))))"
proof (induction S rw pos sator nxt and S p ns cands nw nxt
       rule: iter_sator_for_central_explore_candidates.induct)
  case (1 S running_word sator nxt)
  let ?h = "heap (windex S)"
  show ?case
  proof (intro impI)
    assume ok: "index_ok (windex S)" and rw: "running_word < length ?h"
      and inv: "inverted (?h ! running_word) \<noteq> None"
      and len: "length (deaccented (?h ! running_word)) = s_length S"
      and pos: "2 * 0 + 1 \<le> s_length S"
      and g: "rows_ok ?h (s_length S) sator (Suc 0) (s_length S - Suc 0)"
    from inv obtain q where q: "inverted (?h ! running_word) = Some q" by auto
    from ok have pok: "partners_ok ?h" by (simp add: index_ok_def)
    from place_rows_ok [OF pok rw q len pos g, of nxt] obtain b where
      b: "copy_with_word_in_pos ?h sator (inverted (?h ! running_word)) 0 nxt = Inr b"
         "rows_ok ?h (s_length S) b 0 (s_length S - 0)" by blast
    then show "fst (snd (iter_sator_for_central S running_word 0 sator nxt)) = None \<and>
      (near_miss S < 1 \<longrightarrow>
        (\<forall>g\<in>set (fst (iter_sator_for_central S running_word 0 sator nxt)).
          rows_ok ?h (s_length S) g 0 (s_length S)))"
      by simp
  qed
next
  case (2 S running_word p sator nxt)
  let ?h = "heap (windex S)"
  let ?L = "s_length S"
  show ?case
  proof (intro impI)
    assume ok: "index_ok (windex S)" and rw: "running_word < length ?h"
      and inv: "inverted (?h ! running_word) \<noteq> None"
      and len: "length (deaccented (?h ! running_word)) = ?L"
      and pos: "2 * Suc p + 1 \<le> ?L"
      and g: "rows_ok ?h ?L sator (Suc (Suc p)) (?L - Suc (Suc p))"
    from inv obtain q where q: "inverted (?h ! running_word) = Some q" by auto
    from ok have pok: "partners_ok ?h" by (simp add: index_ok_def)
    from place_rows_ok [OF pok rw q len pos g, of nxt] obtain b where
      b: "copy_with_word_in_pos ?h sator (inverted (?h ! running_word)) (Suc p) nxt = Inr b"
         "rows_ok ?h ?L b (Suc p) (?L - Suc p)" by blast
    from required_letters_ring [OF b(2) pos] obtain r where
      r: "required_letters ?h p (list_slice (content b) (int (Suc p)) (int ?L - int (Suc p)))
            = Inr r" "r \<noteq> []" by blast
    obtain cs cf where w: "word_for_letters_in_position (windex S) r (Suc p) (Some ?L) = (cs, cf)"
      by (cases "word_for_letters_in_position (windex S) r (Suc p) (Some ?L)")
    from pos have L0: "?L \<noteq> 0" by simp
    note c = candidates_ok [OF ok r(2) L0 w]
    from pos have pos': "2 * p + 1 \<le> ?L" by simp
    from "2.IH" [OF b(1) r(1) w [symmetric]] ok c(2) pos' b(2)
    have ih: "fst (snd (explore_candidates S p b cs True (Suc nxt))) = None"
      "near_miss S < 1 \<longrightarrow>
         (\<forall>g\<in>set (fst (explore_candidates S p b cs True (Suc nxt))). rows_ok ?h ?L g 0 ?L)"
      by blast+
    obtain ys f nw n2 where e: "explore_candidates S p b cs True (Suc nxt) = (ys, f, nw, n2)"
      by (cases "explore_candidates S p b cs True (Suc nxt)") auto
    with ih have f: "f = None" and ys: "near_miss S < 1 \<longrightarrow> (\<forall>g\<in>set ys. rows_ok ?h ?L g 0 ?L)"
      by simp_all
    have res: "iter_sator_for_central S running_word (Suc p) sator nxt =
                 (if nw \<and> near_miss S \<ge> int (Suc p) then ys @ [b] else ys, None, n2)"
      using b(1) r(1) w e f c(1) by simp
    show "fst (snd (iter_sator_for_central S running_word (Suc p) sator nxt)) = None \<and>
      (near_miss S < 1 \<longrightarrow>
        (\<forall>g\<in>set (fst (iter_sator_for_central S running_word (Suc p) sator nxt)).
          rows_ok ?h ?L g 0 ?L))"
      unfolding res using ys by auto
  qed
next
  case (3 S p new_sator no_words nxt)
  show ?case by simp
next
  case (4 S p new_sator c cs no_words nxt)
  let ?h = "heap (windex S)"
  let ?L = "s_length S"
  show ?case
  proof (intro impI)
    assume ok: "index_ok (windex S)"
      and cands: "\<forall>c \<in> set (c # cs). c < length ?h \<and> length (deaccented (?h ! c)) = ?L"
      and pos: "2 * p + 1 \<le> ?L"
      and g: "rows_ok ?h ?L new_sator (Suc p) (?L - Suc p)"
    from cands have c: "c < length ?h" "length (deaccented (?h ! c)) = ?L"
      and cs: "\<forall>c \<in> set cs. c < length ?h \<and> length (deaccented (?h ! c)) = ?L"
      by simp_all
    show "fst (snd (explore_candidates S p new_sator (c # cs) no_words nxt)) = None \<and>
      (near_miss S < 1 \<longrightarrow>
        (\<forall>g\<in>set (fst (explore_candidates S p new_sator (c # cs) no_words nxt)).
          rows_ok ?h ?L g 0 ?L))"
    proof (cases "truthy ?h (inverted (?h ! c))")
      case False
      with "4.IH"(1) [OF False] ok cs pos g show ?thesis by simp
    next
      case True
      then have nn: "\<not> \<not> truthy ?h (inverted (?h ! c))" by simp
      from True have inv: "inverted (?h ! c) \<noteq> None"
        by (cases "inverted (?h ! c)") (simp_all add: truthy_def)
      from "4.IH"(2) [OF nn] ok c inv pos g
      have ih1: "fst (snd (iter_sator_for_central S c p new_sator nxt)) = None"
        "near_miss S < 1 \<longrightarrow>
          (\<forall>g\<in>set (fst (iter_sator_for_central S c p new_sator nxt)). rows_ok ?h ?L g 0 ?L)"
        by blast+
      obtain ys f n1 where i: "iter_sator_for_central S c p new_sator nxt = (ys, f, n1)"
        by (cases "iter_sator_for_central S c p new_sator nxt") auto
      with ih1 have f: "f = None"
        and ys: "near_miss S < 1 \<longrightarrow> (\<forall>g\<in>set ys. rows_ok ?h ?L g 0 ?L)" by simp_all
      from "4.IH"(3) [OF nn i [symmetric] refl f] ok cs pos g
      have ih2: "fst (snd (explore_candidates S p new_sator cs False n1)) = None"
        "near_miss S < 1 \<longrightarrow>
          (\<forall>g\<in>set (fst (explore_candidates S p new_sator cs False n1)). rows_ok ?h ?L g 0 ?L)"
        by blast+
      obtain zs f2 nw n2 where e: "explore_candidates S p new_sator cs False n1 = (zs, f2, nw, n2)"
        by (cases "explore_candidates S p new_sator cs False n1") auto
      with ih2 have f2: "f2 = None"
        and zs: "near_miss S < 1 \<longrightarrow> (\<forall>g\<in>set zs. rows_ok ?h ?L g 0 ?L)" by simp_all
      have "explore_candidates S p new_sator (c # cs) no_words nxt = (ys @ zs, None, nw, n2)"
        using True i f e f2 by simp
      then show ?thesis using ys zs by auto
    qed
  qed
qed

lemma seeds_ok:
  assumes ok: "index_ok st" and a: "a \<in> set (iter_for_length st L)"
  shows "a < length (heap st)" "inverted (heap st ! a) \<noteq> None"
    "length (deaccented (heap st ! a)) = L"
proof -
  from a have s: "a \<in> snd ` set (words st)" and i: "inverted (heap st ! a) \<noteq> None"
    and l: "length (deaccented (heap st ! a)) = L"
    by (auto simp: iter_for_length_def)
  from s obtain k where "(k, a) \<in> set (words st)" by auto
  with ok have "map_of (words st) k = Some a" by (simp add: index_ok_def)
  with ok show "a < length (heap st)" by (simp add: index_ok_def)
  from i l show "inverted (heap st ! a) \<noteq> None" "length (deaccented (heap st ! a)) = L" .
qed

lemma iter_sator_for_seed_no_fault:
  assumes ok: "index_ok (windex S)" and L: "s_length S \<noteq> 0"
    and a: "a \<in> set (iter_for_length (windex S) (s_length S))"
  shows "fst (snd (iter_sator_for_seed S a nxt)) = None"
    and "near_miss S < 1 \<Longrightarrow> g \<in> set (fst (iter_sator_for_seed S a nxt)) \<Longrightarrow>
           rows_ok (heap (windex S)) (s_length S) g 0 (s_length S)"
proof -
  let ?L = "s_length S"
  let ?g = "\<lparr>oid = nxt, slen = ?L, content = replicate ?L None\<rparr>"
  have m: "2 * middle_pos ?L + 1 \<le> ?L" using L unfolding middle_pos_def by arith
  have e: "?L - Suc (middle_pos ?L) \<le> Suc (middle_pos ?L)"
    using L unfolding middle_pos_def by arith
  have r: "rows_ok (heap (windex S)) ?L ?g (Suc (middle_pos ?L)) (?L - Suc (middle_pos ?L))"
    using e by (simp add: rows_ok_def)
  have s: "iter_sator_for_seed S a nxt
             = iter_sator_for_central S a (middle_pos ?L) ?g (Suc nxt)"
    by (simp add: iter_sator_for_seed_def Sator_init_def)
  note so = seeds_ok [OF ok a]
  from search_no_fault(1) [of S a "middle_pos ?L" ?g "Suc nxt"] ok so m r
  have "fst (snd (iter_sator_for_central S a (middle_pos ?L) ?g (Suc nxt))) = None
      \<and> (near_miss S < 1 \<longrightarrow>
           (\<forall>g \<in> set (fst (iter_sator_for_central S a (middle_pos ?L) ?g (Suc nxt))).
              rows_ok (heap (windex S)) ?L g 0 ?L))"
    by blast
  then show "fst (snd (iter_sator_for_seed S a nxt)) = None"
    and "near_miss S < 1 \<Longrightarrow> g \<in> set (fst (iter_sator_for_seed S a nxt)) \<Longrightarrow>
           rows_ok (heap (windex S)) ?L g 0 ?L"
    unfolding s by blast+
qed

lemma foldl_take_result:
  "raised (foldl (take_result h) st rs) = raised st"
  "printed (foldl (take_result h) st rs) = printed st"
  by (induction rs arbitrary: st) (simp_all add: take_result_def)

lemma yielded_foldl_take_result:
  "set (yielded (foldl (take_result h) st rs)) \<subseteq> set (yielded st) \<union> set rs"
proof (induction rs arbitrary: st)
  case Nil
  then show ?case by simp
next
  case (Cons r rs)
  have "set (yielded (take_result h st r)) \<subseteq> set (yielded st) \<union> {r}"
    by (auto simp: take_result_def)
  with Cons [of "take_result h st r"] show ?case by auto
qed

lemma generator_loop_no_fault:
  assumes ok: "index_ok (windex S)" and L: "s_length S \<noteq> 0"
  shows "set seeds \<subseteq> set (iter_for_length (windex S) (s_length S)) \<Longrightarrow>
         raised (generator_loop S bound seeds st) = raised st
         \<and> printed (generator_loop S bound seeds st) = printed st
         \<and> (near_miss S < 1 \<longrightarrow>
             (\<forall>g \<in> set (yielded (generator_loop S bound seeds st)).
                g \<in> set (yielded st)
                \<or> rows_ok (heap (windex S)) (s_length S) g 0 (s_length S)))"
proof (induction seeds arbitrary: st)
  case Nil
  then show ?case by simp
next
  case (Cons word seeds)
  let ?h = "heap (windex S)"
  from Cons.prems have w: "word \<in> set (iter_for_length (windex S) (s_length S))"
    and rest: "set seeds \<subseteq> set (iter_for_length (windex S) (s_length S))" by simp_all
  note IH = Cons.IH [OF rest]
  show ?case
  proof (cases "s_length S mod 2 \<noteq> 0 \<and> \<not> is_symmetrical (?h ! word)")
    case True
    with IH [of st] show ?thesis by simp
  next
    case False
    obtain rs f n1 where i: "iter_sator_for_seed S word (next_id st) = (rs, f, n1)"
      by (cases "iter_sator_for_seed S word (next_id st)") auto
    from iter_sator_for_seed_no_fault(1) [OF ok L w, of "next_id st"] i have f: "f = None" by simp
    let ?st1 = "foldl (take_result ?h) (st\<lparr>next_id := n1\<rparr>) rs"
    have step: "generator_loop S bound (word # seeds) st = generator_loop S bound seeds ?st1"
      using False i f by auto
    have rs: "near_miss S < 1 \<Longrightarrow> g \<in> set rs \<Longrightarrow> rows_ok ?h (s_length S) g 0 (s_length S)" for g
      using iter_sator_for_seed_no_fault(2) [OF ok L w, of g "next_id st"] i by simp
    have y1: "set (yielded ?st1) \<subseteq> set (yielded st) \<union> set rs"
      using yielded_foldl_take_result [of ?h "st\<lparr>next_id := n1\<rparr>" rs] by simp
    from IH [of ?st1] have a: "raised (generator_loop S bound seeds ?st1) = raised st"
      and b: "printed (generator_loop S bound seeds ?st1) = printed st"
      and c: "near_miss S < 1 \<longrightarrow>
             (\<forall>g \<in> set (yielded (generator_loop S bound seeds ?st1)).
                g \<in> set (yielded ?st1) \<or> rows_ok ?h (s_length S) g 0 (s_length S))"
      by (simp_all add: foldl_take_result)
    from c y1 rs have "near_miss S < 1 \<longrightarrow>
             (\<forall>g \<in> set (yielded (generator_loop S bound seeds ?st1)).
                g \<in> set (yielded st) \<or> rows_ok ?h (s_length S) g 0 (s_length S))"
      by blast
    with a b show ?thesis unfolding step by blast
  qed
qed

lemma generator_never_raises:
  assumes "windex S = WordsList_init ws wl" and "s_length S \<noteq> 0"
  shows "raised (generator S bound res nxt) = None \<and> printed (generator S bound res nxt) = []"
proof -
  have ok: "index_ok (windex S)" unfolding assms(1) by (rule index_ok_WordsList_init)
  from generator_loop_no_fault [OF ok assms(2) subset_refl, where bound = bound
         and st = "\<lparr>yielded = [], raised = None, printed = [], results = res, next_id = nxt\<rparr>"]
  show ?thesis by (simp add: generator_def)
qed

lemma generator_grids_complete:
  assumes "windex S = WordsList_init ws wl" and "s_length S \<noteq> 0" and "near_miss S < 1"
    and g: "g \<in> set (yielded (generator S bound res nxt))"
  shows "length (content g) = s_length S \<and> None \<notin> set (content g)"
proof -
  have ok: "index_ok (windex S)" unfolding assms(1) by (rule index_ok_WordsList_init)
  from generator_loop_no_fault [OF ok assms(2) subset_refl, where bound = bound
         and st = "\<lparr>yielded = [], raised = None, printed = [], results = res, next_id = nxt\<rparr>"]
       assms(3) g
  have r: "rows_ok (heap (windex S)) (s_length S) g 0 (s_length S)"
    by (simp add: generator_def)
  then have l: "length (content g) = s_length S" by (simp add: rows_ok_def)
  have "None \<notin> set (content g)"
  proof
    assume "None \<in> set (content g)"
    then obtain i where "i < length (content g)" "content g ! i = None"
      by (auto simp: in_set_conv_nth)
    with r l show False by (auto simp: rows_ok_def)
  qed
  with l show ?thesis by simp
qed

section \<open>Runs of the generator\<close>

text \<open>
  C1 says that no run of \<^verbatim>\<open>generator\<close> yields two grids with the same sorted tuple
  of words. The code keeps the set \<^verbatim>\<open>results\<close> for this and \<^verbatim>\<open>Sator\<close> hashes by
  that tuple, but \<^verbatim>\<open>Sator\<close> has no \<^verbatim>\<open>__eq__\<close>, so membership in the set is
  identity and every grid yielded is a new object. On the words \<open>ab\<close> and \<open>ba\<close> at
  length 2 the run yields two grids, with the rows \<open>ba, ab\<close> and \<open>ab, ba\<close>, whose
  tuples are both \<open>(ab, ba)\<close>.
\<close>

theorem generator_yields_equal_grids:
  "Satorter_init (WordsList_init [[97, 98], [98, 97]] (Some 2)) None 0
     = Inr \<lparr>windex = WordsList_init [[97, 98], [98, 97]] (Some 2), near_miss = 0, s_length = 2\<rparr>
   \<and> yielded (generator
        \<lparr>windex = WordsList_init [[97, 98], [98, 97]] (Some 2), near_miss = 0, s_length = 2\<rparr>
        (\<lambda>ys. False) [] 0)
       = [\<lparr>oid = 1, slen = 2, content = [Some 1, Some 0]\<rparr>,
          \<lparr>oid = 3, slen = 2, content = [Some 0, Some 1]\<rparr>]
   \<and> Sator_hash (heap (WordsList_init [[97, 98], [98, 97]] (Some 2)))
        \<lparr>oid = 1, slen = 2, content = [Some 1, Some 0]\<rparr> = [[97, 98], [98, 97]]
   \<and> Sator_hash (heap (WordsList_init [[97, 98], [98, 97]] (Some 2)))
        \<lparr>oid = 3, slen = 2, content = [Some 0, Some 1]\<rparr> = [[97, 98], [98, 97]]"
  by code_simp

text \<open>
  C2 says that an exception raised while a seed is explored is caught and logged,
  never reaches the caller, and that the run goes on with the next seed. The handler
  prints the traceback and then the name \<^verbatim>\<open>sator\<close>, which \<^verbatim>\<open>generator\<close> does not
  define: where the module has no such name, the handler raises NameError, which
  reaches the caller and ends the run. Over an index as \<^verbatim>\<open>WordsList\<close> builds it
  the search raises nothing (\<open>generator_never_raises\<close>), so below the partner of
  \<open>ba\<close> has been cleared (\<^verbatim>\<open>Inverted.__set__\<close> with \<^verbatim>\<open>None\<close>) in the index of
  \<open>ab, ba, cd, dc\<close>: placing \<open>ba\<close> for the seed \<open>ab\<close> fails its assertion, and
  the seeds \<open>cd\<close> and \<open>dc\<close> are never explored, though they yield a grid each when
  the name is bound.
\<close>

theorem generator_handler_raises_NameError:
  "iter_sator_for_seed
       \<lparr>windex = (WordsList_init [[97, 98], [98, 97], [99, 100], [100, 99]] (Some 2))
          \<lparr>heap := Inverted_set
             (heap (WordsList_init [[97, 98], [98, 97], [99, 100], [100, 99]] (Some 2))) 1 None\<rparr>,
        near_miss = 0, s_length = 2\<rparr> 0 0
     = ([], Some AssertionError, 2)
   \<and> generator
       \<lparr>windex = (WordsList_init [[97, 98], [98, 97], [99, 100], [100, 99]] (Some 2))
          \<lparr>heap := Inverted_set
             (heap (WordsList_init [[97, 98], [98, 97], [99, 100], [100, 99]] (Some 2))) 1 None\<rparr>,
        near_miss = 0, s_length = 2\<rparr> (\<lambda>ys. False) [] 0
     = \<lparr>yielded = [], raised = Some NameError, printed = [AssertionError], results = [],
        next_id = 2\<rparr>
   \<and> map content (yielded (generator
       \<lparr>windex = (WordsList_init [[97, 98], [98, 97], [99, 100], [100, 99]] (Some 2))
          \<lparr>heap := Inverted_set
             (heap (WordsList_init [[97, 98], [98, 97], [99, 100], [100, 99]] (Some 2))) 1 None\<rparr>,
        near_miss = 0, s_length = 2\<rparr> (\<lambda>ys. True) [] 0))
     = [[Some 3, Some 2], [Some 2, Some 3]]"
  by code_simp

text \<open>
  C3 says that every grid yielded with \<open>near_miss = 0\<close> has all its slots filled and
  reads the same down column \<open>pos\<close> as along row \<open>pos\<close>. The step places
  \<^verbatim>\<open>running_word.inverted\<close> at \<open>pos\<close>, so the word that matched the letters of
  column \<open>pos\<close> lands in the mirrored row. On the five words of the classical square
  at length 5 the run yields the rows \<open>rotas, arepo, tenet, opera, sator\<close> and
  \<open>sator, opera, tenet, arepo, rotas\<close>: all slots are filled, as they always are
  (\<open>generator_grids_complete\<close>), but the first columns read \<open>ratos\<close> and
  \<open>sotar\<close>.
\<close>

theorem generator_yields_asymmetric_grid:
  "map (Sator_rows (heap (WordsList_init
          [[115, 97, 116, 111, 114], [97, 114, 101, 112, 111], [116, 101, 110, 101, 116],
           [111, 112, 101, 114, 97], [114, 111, 116, 97, 115]] (Some 5))))
     (yielded (generator
        \<lparr>windex = WordsList_init
           [[115, 97, 116, 111, 114], [97, 114, 101, 112, 111], [116, 101, 110, 101, 116],
            [111, 112, 101, 114, 97], [114, 111, 116, 97, 115]] (Some 5),
         near_miss = 0, s_length = 5\<rparr> (\<lambda>ys. False) [] 0))
   = [[[114, 111, 116, 97, 115], [97, 114, 101, 112, 111], [116, 101, 110, 101, 116],
       [111, 112, 101, 114, 97], [115, 97, 116, 111, 114]],
      [[115, 97, 116, 111, 114], [111, 112, 101, 114, 97], [116, 101, 110, 101, 116],
       [97, 114, 101, 112, 111], [114, 111, 116, 97, 115]]]
   \<and> column [[114, 111, 116, 97, 115], [97, 114, 101, 112, 111], [116, 101, 110, 101, 116],
              [111, 112, 101, 114, 97], [115, 97, 116, 111, 114]] 0
      = [114, 97, 116, 111, 115]
   \<and> column [[115, 97, 116, 111, 114], [111, 112, 101, 114, 97], [116, 101, 110, 101, 116],
              [97, 114, 101, 112, 111], [114, 111, 116, 97, 115]] 0
      = [115, 111, 116, 97, 114]"
  by code_simp

end
